theory Spec2Isabelle
  imports Complex_Main "HOL-Library.Char_ord" "HOL-Library.List_Lexorder"
begin

section \<open>The accounting mind-map of app.py\<close>

text \<open>
  The callback \<open>update_graph_and_totals\<close> of \<open>app.py\<close> receives the slider values of the
  leaf accounts, rolls them up along \<open>TREE\<close>, derives Equity, and appends one size rule per
  account to a copy of the graph's stylesheet. Python \<open>int\<close> values are \<open>int\<close>; a \<open>dict\<close> is an
  association list in insertion order; an exception is the \<open>Inl\<close> side of a sum. The quotient
  \<open>v / max_val\<close> of line 209 is a Python float: the division raises \<open>OverflowError\<close> when
  the quotient is too large for a double, and otherwise gives the double nearest to the
  exact quotient. The model has the exception, and for the value it keeps the exact
  rational number in place of the nearest double.
\<close>

subsection \<open>Python values\<close>

datatype error =
  KeyError string | ValueError | ZeroDivisionError | OverflowError | AttributeError

type_synonym 'v dict = "(string \<times> 'v) list"

text \<open>\<open>d[k] = v\<close>: an existing key keeps its position, a new key goes to the end.\<close>

fun dict_set :: "'v dict \<Rightarrow> string \<Rightarrow> 'v \<Rightarrow> 'v dict" where
  "dict_set [] k v = [(k, v)]"
| "dict_set ((k', v') # d) k v =
     (if k' = k then (k', v) # d else (k', v') # dict_set d k v)"

text \<open>\<open>dict(pairs)\<close> and \<open>{**a, **b}\<close>: insertion of the pairs from left to right.\<close>

definition dict_update :: "'v dict \<Rightarrow> (string \<times> 'v) list \<Rightarrow> 'v dict" where
  "dict_update d ps = foldl (\<lambda>acc (k, v). dict_set acc k v) d ps"

definition dict_of :: "(string \<times> 'v) list \<Rightarrow> 'v dict" where
  "dict_of ps = dict_update [] ps"

definition dict_merge :: "'v dict \<Rightarrow> 'v dict \<Rightarrow> 'v dict" where
  "dict_merge a b = dict_update (dict_of a) b"

text \<open>\<open>d[k]\<close> raises \<open>KeyError(k)\<close> on a missing key.\<close>

definition dict_get :: "'v dict \<Rightarrow> string \<Rightarrow> error + 'v" where
  "dict_get d k = (case map_of d k of None \<Rightarrow> Inl (KeyError k) | Some v \<Rightarrow> Inr v)"

text \<open>
  \<open>sum(g)\<close> over a generator: the accumulator starts at 0, the items are produced and added
  from left to right, and the first item that raises ends the sum.
\<close>

fun sum_from :: "int \<Rightarrow> (error + int) list \<Rightarrow> error + int" where
  "sum_from acc [] = Inr acc"
| "sum_from acc (Inl e # rs) = Inl e"
| "sum_from acc (Inr v # rs) = sum_from (acc + v) rs"

definition py_sum :: "(error + int) list \<Rightarrow> error + int" where
  "py_sum rs = sum_from 0 rs"

text \<open>\<open>max(xs)\<close> raises \<open>ValueError\<close> on an empty list.\<close>

definition py_max :: "int list \<Rightarrow> error + int" where
  "py_max xs = (case xs of [] \<Rightarrow> Inl ValueError | x # ys \<Rightarrow> Inr (fold max ys x))"

text \<open>\<open>{k: f(k) for k in ks}\<close> and \<open>[f(k) for k in ks]\<close>, stopping at the first raise.\<close>

fun dict_comp :: "(string \<Rightarrow> error + 'v) \<Rightarrow> string list \<Rightarrow> 'v dict \<Rightarrow> error + 'v dict" where
  "dict_comp f [] d = Inr d"
| "dict_comp f (k # ks) d =
     (case f k of Inl e \<Rightarrow> Inl e | Inr v \<Rightarrow> dict_comp f ks (dict_set d k v))"

fun list_comp :: "('a \<Rightarrow> error + 'b) \<Rightarrow> 'a list \<Rightarrow> error + 'b list" where
  "list_comp f [] = Inr []"
| "list_comp f (k # ks) =
     (case f k of Inl e \<Rightarrow> Inl e
      | Inr v \<Rightarrow> (case list_comp f ks of Inl e \<Rightarrow> Inl e | Inr vs \<Rightarrow> Inr (v # vs)))"

text \<open>\<open>xs[-n:]\<close>: the last \<open>n\<close> items, all of them when there are fewer.\<close>

definition last_n :: "nat \<Rightarrow> 'a list \<Rightarrow> 'a list" where
  "last_n n xs = drop (length xs - n) xs"

subsection \<open>The data model (lines 14 to 49)\<close>

definition LEAF_NODES :: "int dict" where
  "LEAF_NODES =
     [(''Cash'', 10000), (''AR'', 12000), (''Inventory'', 8000), (''PPE'', 40000),
      (''Intangibles'', 5000),
      (''AP'', 7000), (''NotesPayable'', 6000), (''LongTermDebt'', 20000),
      (''OperatingIncome'', 15000), (''NonOperatingIncome'', 3000),
      (''COGS'', 9000), (''SGA'', 4000), (''Depreciation'', 2000), (''InterestExp'', 1000)]"

definition TREE :: "string list dict" where
  "TREE =
     [(''CurrentAssets'', [''Cash'', ''AR'', ''Inventory'']),
      (''NonCurrentAssets'', [''PPE'', ''Intangibles'']),
      (''Assets'', [''CurrentAssets'', ''NonCurrentAssets'']),
      (''CurrentLiabilities'', [''AP'', ''NotesPayable'']),
      (''NonCurrentLiabilities'', [''LongTermDebt'']),
      (''Liabilities'', [''CurrentLiabilities'', ''NonCurrentLiabilities'']),
      (''Income'', [''OperatingIncome'', ''NonOperatingIncome'']),
      (''Expenses'', [''COGS'', ''SGA'', ''Depreciation'', ''InterestExp''])]"

definition ROOTS :: "string list" where
  "ROOTS = [''Assets'', ''Liabilities'', ''Income'', ''Expenses'']"

text \<open>Line 76 and line 116: the nodes of the graph, and the sorted names of the computed ones.\<close>

definition all_nodes :: "string set" where
  "all_nodes = set (map fst LEAF_NODES) \<union> set (map fst TREE) \<union> {''Equity'', ''Equation''}"

definition computed_nodes :: "string list" where
  "computed_nodes =
     sorted_list_of_set (all_nodes - set (map fst LEAF_NODES) - {''Equation''})"

subsection \<open>The roll-up helper \<open>total\<close> (lines 187 to 198)\<close>

text \<open>The height of a node over the leaves, which decreases along every recursive call.\<close>

definition rank :: "string \<Rightarrow> nat" where
  "rank node =
     (if node = ''Equity'' then 3
      else if node = ''Assets'' \<or> node = ''Liabilities'' then 2
      else if node \<in> set (map fst TREE) then 1
      else 0)"

function total :: "int dict \<Rightarrow> string \<Rightarrow> error + int" where
  "total leaf_vals node =
     (if node \<in> set (map fst LEAF_NODES) then dict_get leaf_vals node
      else (case map_of TREE node of
              Some kids \<Rightarrow> py_sum (map (total leaf_vals) kids)
            | None \<Rightarrow>
               (if node = ''Equity'' then
                  (case total leaf_vals ''Assets'' of Inl e \<Rightarrow> Inl e | Inr assets \<Rightarrow>
                  (case total leaf_vals ''Liabilities'' of Inl e \<Rightarrow> Inl e | Inr liabilities \<Rightarrow>
                  (case total leaf_vals ''Income'' of Inl e \<Rightarrow> Inl e | Inr income \<Rightarrow>
                  (case total leaf_vals ''Expenses'' of Inl e \<Rightarrow> Inl e | Inr expenses \<Rightarrow>
                     Inr (assets + income - expenses - liabilities)))))
                else Inr 0)))"
  by pat_completeness auto

lemma set_TREE:
  "(node, kids) \<in> set TREE \<longleftrightarrow>
     node = ''CurrentAssets'' \<and> kids = [''Cash'', ''AR'', ''Inventory''] \<or>
     node = ''NonCurrentAssets'' \<and> kids = [''PPE'', ''Intangibles''] \<or>
     node = ''Assets'' \<and> kids = [''CurrentAssets'', ''NonCurrentAssets''] \<or>
     node = ''CurrentLiabilities'' \<and> kids = [''AP'', ''NotesPayable''] \<or>
     node = ''NonCurrentLiabilities'' \<and> kids = [''LongTermDebt''] \<or>
     node = ''Liabilities'' \<and> kids = [''CurrentLiabilities'', ''NonCurrentLiabilities''] \<or>
     node = ''Income'' \<and> kids = [''OperatingIncome'', ''NonOperatingIncome''] \<or>
     node = ''Expenses'' \<and> kids = [''COGS'', ''SGA'', ''Depreciation'', ''InterestExp'']"
  unfolding TREE_def by (simp only: set_simps insert_iff empty_iff prod.inject simp_thms)

lemma rank_children:
  assumes "map_of TREE node = Some kids" and "ch \<in> set kids"
  shows "rank ch < rank node"
proof -
  from assms(1) have "(node, kids) \<in> set TREE" by (rule map_of_SomeD)
  then have "\<forall>c \<in> set kids. rank c < rank node"
    unfolding set_TREE
    by (elim disjE conjE) (simp_all add: rank_def TREE_def)
  with assms(2) show ?thesis by (rule_tac bspec)
qed

lemma rank_roots:
  "rank ''Assets'' < rank ''Equity''" "rank ''Liabilities'' < rank ''Equity''"
  "rank ''Income'' < rank ''Equity''" "rank ''Expenses'' < rank ''Equity''"
  by (simp_all add: rank_def TREE_def)

termination total
proof (relation "measure (\<lambda>(leaf_vals, node). rank node)")
  show "wf (measure (\<lambda>(leaf_vals :: int dict, node). rank node))" by simp
qed (simp_all add: rank_children rank_roots)

declare total.simps [simp del]

subsection \<open>The values of one call (lines 184, 201, 204 and 205)\<close>

definition leaf_vals_of :: "int list \<Rightarrow> int dict" where
  "leaf_vals_of vals = dict_of (zip (map fst LEAF_NODES) (last_n (length LEAF_NODES) vals))"

definition computed_vals_of :: "int dict \<Rightarrow> error + int dict" where
  "computed_vals_of leaf_vals = dict_comp (total leaf_vals) computed_nodes []"

definition all_values :: "int dict \<Rightarrow> int dict \<Rightarrow> int list" where
  "all_values leaf_vals computed_vals = map snd leaf_vals @ map snd computed_vals"

text \<open>\<open>max(all_values) or 1\<close>: the maximum, replaced by 1 when it is 0.\<close>

definition max_val_of :: "int list \<Rightarrow> error + int" where
  "max_val_of vs = (case py_max vs of Inl e \<Rightarrow> Inl e | Inr m \<Rightarrow> Inr (if m = 0 then 1 else m))"

subsection \<open>Node sizes (lines 208 to 210)\<close>

text \<open>
  The true division of two Python ints rounds the exact quotient to the nearest double,
  ties to even, and raises \<open>OverflowError\<close> when the rounded result is not a finite double:
  that is when the magnitude of the quotient reaches \<open>2^1024 - 2^970\<close>, half way between
  the largest double and \<open>2^1024\<close>.
\<close>

definition double_overflow :: "rat \<Rightarrow> bool" where
  "double_overflow q \<longleftrightarrow> 2 ^ 1024 - 2 ^ 970 \<le> \<bar>q\<bar>"

text \<open>
  \<open>weight\<close> is the quotient \<open>v / max_val\<close> inside line 209, with its two exceptions;
  \<open>node_size\<close> is the whole right-hand side (the source's \<open>size\<close>, here \<open>sz\<close>), whose
  multiplication and addition of floats raise nothing. Both keep the exact rational value
  where the code holds the double that its float arithmetic gives. \<open>Px sz\<close> is the place of
  the string \<open>f"{size:.0f}px"\<close> in a size rule: it records that exact value, and the digits
  that the code writes for its double are not modelled.
\<close>

definition weight :: "int \<Rightarrow> int \<Rightarrow> error + rat" where
  "weight v max_val =
     (if max_val = 0 then Inl ZeroDivisionError
      else if double_overflow (of_int v / of_int max_val) then Inl OverflowError
      else Inr (of_int v / of_int max_val))"

definition node_size :: "int \<Rightarrow> int \<Rightarrow> error + rat" where
  "node_size v max_val =
     (case weight v max_val of Inl e \<Rightarrow> Inl e | Inr w \<Rightarrow> Inr (30 + w * 70))"

datatype css_value = Lit string | Px rat

datatype style_rule = Rule (selector: string) (style: "(string \<times> css_value) list")

definition node_rule :: "string \<Rightarrow> rat \<Rightarrow> style_rule" where
  "node_rule nid sz =
     Rule (''node[id = '' @ [CHR 0x27] @ nid @ [CHR 0x27] @ '']'')
          [(''width'', Px sz), (''height'', Px sz)]"

text \<open>The stylesheet given to the Cytoscape component (lines 138 to 157).\<close>

definition base_stylesheet :: "style_rule list" where
  "base_stylesheet =
     [Rule ''node''
        [(''label'', Lit ''data(label)''), (''font-size'', Lit ''10px''),
         (''text-valign'', Lit ''center''), (''text-halign'', Lit ''center''),
         (''width'', Lit ''50px''), (''height'', Lit ''50px'')],
      Rule ''.center'' [(''background-color'', Lit ''#8390FA'')],
      Rule ''.asset'' [(''background-color'', Lit ''#7FB069'')],
      Rule ''.liability'' [(''background-color'', Lit ''#F28D35'')],
      Rule ''.equity'' [(''background-color'', Lit ''#6A4C93'')],
      Rule ''.income'' [(''background-color'', Lit ''#4281A4'')],
      Rule ''.expense'' [(''background-color'', Lit ''#D64161'')],
      Rule ''edge'' [(''line-color'', Lit ''#999''), (''width'', Lit ''1.5'')]]"

subsection \<open>The store of list objects\<close>

text \<open>
  A Python list is a mutable object behind a reference. The store maps references to the
  lists they hold; \<open>next_ref\<close> is the next unused reference. The rules themselves are never
  written to by the callback and are kept as values.
\<close>

type_synonym ref = nat

record store =
  objs :: "ref \<Rightarrow> style_rule list option"
  next_ref :: ref

text \<open>The list object held by \<open>graph_panel.children[0].stylesheet\<close>.\<close>

definition stylesheet_ref :: ref where
  "stylesheet_ref = 0"

definition init_store :: store where
  "init_store = \<lparr>objs = Map.empty(stylesheet_ref \<mapsto> base_stylesheet), next_ref = 1\<rparr>"

text \<open>\<open>xs[:]\<close>: a new list object with the same items.\<close>

definition copy_list :: "store \<Rightarrow> ref \<Rightarrow> (error + ref) \<times> store" where
  "copy_list s r =
     (case objs s r of
        None \<Rightarrow> (Inl AttributeError, s)
      | Some xs \<Rightarrow>
          (Inr (next_ref s),
           s\<lparr>objs := (objs s)(next_ref s \<mapsto> xs), next_ref := Suc (next_ref s)\<rparr>))"

text \<open>\<open>xs.append(x)\<close>: the object behind the reference grows in place.\<close>

definition list_append :: "store \<Rightarrow> ref \<Rightarrow> style_rule \<Rightarrow> store" where
  "list_append s r x =
     (case objs s r of None \<Rightarrow> s | Some xs \<Rightarrow> s\<lparr>objs := (objs s)(r \<mapsto> xs @ [x])\<rparr>)"

text \<open>The loop of lines 208 to 210 over the items of \<open>{**leaf_vals, **computed_vals}\<close>.\<close>

fun resize_nodes :: "int dict \<Rightarrow> int \<Rightarrow> ref \<Rightarrow> store \<Rightarrow> (error + unit) \<times> store" where
  "resize_nodes [] max_val stylesheet s = (Inr (), s)"
| "resize_nodes ((nid, v) # items) max_val stylesheet s =
     (case node_size v max_val of
        Inl e \<Rightarrow> (Inl e, s)
      | Inr sz \<Rightarrow>
          resize_nodes items max_val stylesheet (list_append s stylesheet (node_rule nid sz)))"

subsection \<open>The callback (lines 182 to 213)\<close>

definition update_graph_and_totals ::
  "store \<Rightarrow> int list \<Rightarrow> (error + ref \<times> int list) \<times> store" where
  "update_graph_and_totals s vals =
     (let leaf_vals = leaf_vals_of vals in
      case computed_vals_of leaf_vals of
        Inl e \<Rightarrow> (Inl e, s)
      | Inr computed_vals \<Rightarrow>
         (case max_val_of (all_values leaf_vals computed_vals) of
            Inl e \<Rightarrow> (Inl e, s)
          | Inr max_val \<Rightarrow>
             (case copy_list s stylesheet_ref of
                (Inl e, s1) \<Rightarrow> (Inl e, s1)
              | (Inr stylesheet, s1) \<Rightarrow>
                 (case resize_nodes (dict_merge leaf_vals computed_vals) max_val stylesheet s1 of
                    (Inl e, s2) \<Rightarrow> (Inl e, s2)
                  | (Inr u, s2) \<Rightarrow>
                     (case list_comp (dict_get computed_vals) computed_nodes of
                        Inl e \<Rightarrow> (Inl e, s2)
                      | Inr outs \<Rightarrow> (Inr (stylesheet, outs), s2))))))"

text \<open>
  What a caller sees of a call: the exception, or the items of the returned stylesheet
  and the values for the computed sliders.
\<close>

definition observe ::
  "(error + ref \<times> int list) \<times> store \<Rightarrow> error + style_rule list \<times> int list" where
  "observe out =
     (case fst out of
        Inl e \<Rightarrow> Inl e
      | Inr (stylesheet, outs) \<Rightarrow>
          (case objs (snd out) stylesheet of
             None \<Rightarrow> Inl AttributeError
           | Some rules \<Rightarrow> Inr (rules, outs)))"

text \<open>The stores a process goes through: the one after start-up, and the one after each call.\<close>

inductive reachable :: "store \<Rightarrow> bool" where
  start: "reachable init_store"
| call: "reachable s \<Longrightarrow> reachable (snd (update_graph_and_totals s vals))"

definition store_ok :: "store \<Rightarrow> bool" where
  "store_ok s \<longleftrightarrow> (\<forall>r. next_ref s \<le> r \<longrightarrow> objs s r = None)"

subsection \<open>Notions used to state the properties\<close>

text \<open>Some quotient of the loop of lines 208 to 210 is too large for a double.\<close>

definition overflowing :: "int dict \<Rightarrow> int \<Rightarrow> bool" where
  "overflowing items max_val \<longleftrightarrow>
     list_ex (\<lambda>(nid, v). double_overflow (of_int v / of_int max_val)) items"

text \<open>The leaves of the hierarchy for which a snapshot has no value, in declaration order.\<close>

definition missing_leaves :: "int dict \<Rightarrow> string list" where
  "missing_leaves leaf_vals = filter (\<lambda>k. map_of leaf_vals k = None) (map fst LEAF_NODES)"

text \<open>The child relation of \<open>TREE\<close>, and the only way \<open>total\<close> can raise.\<close>

definition child_rel :: "(string \<times> string) set" where
  "child_rel = {(ch, node). \<exists>kids. map_of TREE node = Some kids \<and> ch \<in> set kids}"

definition missing_leaf :: "int dict \<Rightarrow> error + int \<Rightarrow> bool" where
  "missing_leaf lv r \<longleftrightarrow>
     (\<exists>k. r = Inl (KeyError k) \<and> k \<in> set (map fst LEAF_NODES) \<and> map_of lv k = None)"

section \<open>Properties\<close>

subsection \<open>The hierarchy, evaluated\<close>

lemma computed_nodes_eq:
  "computed_nodes =
     [''Assets'', ''CurrentAssets'', ''CurrentLiabilities'', ''Equity'', ''Expenses'',
      ''Income'', ''Liabilities'', ''NonCurrentAssets'', ''NonCurrentLiabilities'']"
  by code_simp

lemma leaf_names:
  "map fst LEAF_NODES =
     [''Cash'', ''AR'', ''Inventory'', ''PPE'', ''Intangibles'', ''AP'', ''NotesPayable'',
      ''LongTermDebt'', ''OperatingIncome'', ''NonOperatingIncome'', ''COGS'', ''SGA'',
      ''Depreciation'', ''InterestExp'']"
  by (simp add: LEAF_NODES_def)

lemma length_LEAF_NODES: "length LEAF_NODES = 14"
  by (simp add: LEAF_NODES_def)

subsection \<open>The equations of \<open>total\<close>, branch by branch\<close>

lemma total_leaf:
  "node \<in> set (map fst LEAF_NODES) \<Longrightarrow> total leaf_vals node = dict_get leaf_vals node"
  by (subst total.simps) simp

lemma total_tree:
  "node \<notin> set (map fst LEAF_NODES) \<Longrightarrow> map_of TREE node = Some kids \<Longrightarrow>
   total leaf_vals node = py_sum (map (total leaf_vals) kids)"
  by (subst total.simps) simp

lemma total_Equity:
  "total lv ''Equity'' =
     (case total lv ''Assets'' of Inl e \<Rightarrow> Inl e | Inr assets \<Rightarrow>
     (case total lv ''Liabilities'' of Inl e \<Rightarrow> Inl e | Inr liabilities \<Rightarrow>
     (case total lv ''Income'' of Inl e \<Rightarrow> Inl e | Inr income \<Rightarrow>
     (case total lv ''Expenses'' of Inl e \<Rightarrow> Inl e | Inr expenses \<Rightarrow>
        Inr (assets + income - expenses - liabilities)))))"
  by (subst total.simps) (simp add: leaf_names TREE_def)

lemma total_other:
  "node \<notin> set (map fst LEAF_NODES) \<Longrightarrow> map_of TREE node = None \<Longrightarrow> node \<noteq> ''Equity'' \<Longrightarrow>
   total lv node = Inr 0"
  by (subst total.simps) simp

lemma total_CurrentAssets:
  "total lv ''CurrentAssets'' =
     py_sum [dict_get lv ''Cash'', dict_get lv ''AR'', dict_get lv ''Inventory'']"
  by (subst total_tree [where kids = "[''Cash'', ''AR'', ''Inventory'']"])
     (simp_all add: leaf_names TREE_def total_leaf)

lemma total_NonCurrentAssets:
  "total lv ''NonCurrentAssets'' = py_sum [dict_get lv ''PPE'', dict_get lv ''Intangibles'']"
  by (subst total_tree [where kids = "[''PPE'', ''Intangibles'']"])
     (simp_all add: leaf_names TREE_def total_leaf)

lemma total_Assets:
  "total lv ''Assets'' = py_sum [total lv ''CurrentAssets'', total lv ''NonCurrentAssets'']"
  by (subst total_tree [where kids = "[''CurrentAssets'', ''NonCurrentAssets'']"])
     (simp_all add: leaf_names TREE_def)

lemma total_CurrentLiabilities:
  "total lv ''CurrentLiabilities'' = py_sum [dict_get lv ''AP'', dict_get lv ''NotesPayable'']"
  by (subst total_tree [where kids = "[''AP'', ''NotesPayable'']"])
     (simp_all add: leaf_names TREE_def total_leaf)

lemma total_NonCurrentLiabilities:
  "total lv ''NonCurrentLiabilities'' = py_sum [dict_get lv ''LongTermDebt'']"
  by (subst total_tree [where kids = "[''LongTermDebt'']"])
     (simp_all add: leaf_names TREE_def total_leaf)

lemma total_Liabilities:
  "total lv ''Liabilities'' =
     py_sum [total lv ''CurrentLiabilities'', total lv ''NonCurrentLiabilities'']"
  by (subst total_tree [where kids = "[''CurrentLiabilities'', ''NonCurrentLiabilities'']"])
     (simp_all add: leaf_names TREE_def)

lemma total_Income:
  "total lv ''Income'' =
     py_sum [dict_get lv ''OperatingIncome'', dict_get lv ''NonOperatingIncome'']"
  by (subst total_tree [where kids = "[''OperatingIncome'', ''NonOperatingIncome'']"])
     (simp_all add: leaf_names TREE_def total_leaf)

lemma total_Expenses:
  "total lv ''Expenses'' =
     py_sum [dict_get lv ''COGS'', dict_get lv ''SGA'', dict_get lv ''Depreciation'',
             dict_get lv ''InterestExp'']"
  by (subst total_tree [where kids = "[''COGS'', ''SGA'', ''Depreciation'', ''InterestExp'']"])
     (simp_all add: leaf_names TREE_def total_leaf)

lemmas total_nodes =
  total_CurrentAssets total_NonCurrentAssets total_Assets total_CurrentLiabilities
  total_NonCurrentLiabilities total_Liabilities total_Income total_Expenses total_Equity

subsection \<open>A complete snapshot, evaluated\<close>

lemma last_n_14:
  assumes "14 \<le> length (vals :: 'a list)"
  shows "\<exists>a b c d e f g h i j k l m n.
           last_n 14 vals = [a, b, c, d, e, f, g, h, i, j, k, l, m, n]"
proof -
  have "length (last_n 14 vals) = 14" using assms by (simp add: last_n_def)
  then show ?thesis
    by (simp add: eval_nat_numeral length_Suc_conv) metis
qed

lemma leaf_vals_explicit:
  "last_n 14 vals =
     [cash, ar, inventory, ppe, intangibles, ap, notes, debt, opinc, nonop, cogs, sga, depr,
      interest] \<Longrightarrow>
   leaf_vals_of vals =
     [(''Cash'', cash), (''AR'', ar), (''Inventory'', inventory), (''PPE'', ppe),
      (''Intangibles'', intangibles), (''AP'', ap), (''NotesPayable'', notes),
      (''LongTermDebt'', debt), (''OperatingIncome'', opinc), (''NonOperatingIncome'', nonop),
      (''COGS'', cogs), (''SGA'', sga), (''Depreciation'', depr), (''InterestExp'', interest)]"
  by (simp add: leaf_vals_of_def length_LEAF_NODES leaf_names dict_of_def dict_update_def)

lemma computed_vals_explicit:
  "computed_vals_of
     [(''Cash'', cash), (''AR'', ar), (''Inventory'', inventory), (''PPE'', ppe),
      (''Intangibles'', intangibles), (''AP'', ap), (''NotesPayable'', notes),
      (''LongTermDebt'', debt), (''OperatingIncome'', opinc), (''NonOperatingIncome'', nonop),
      (''COGS'', cogs), (''SGA'', sga), (''Depreciation'', depr), (''InterestExp'', interest)] =
   Inr [(''Assets'', cash + ar + inventory + (ppe + intangibles)),
        (''CurrentAssets'', cash + ar + inventory),
        (''CurrentLiabilities'', ap + notes),
        (''Equity'', cash + ar + inventory + (ppe + intangibles) + (opinc + nonop)
                     - (cogs + sga + depr + interest) - (ap + notes + debt)),
        (''Expenses'', cogs + sga + depr + interest),
        (''Income'', opinc + nonop),
        (''Liabilities'', ap + notes + debt),
        (''NonCurrentAssets'', ppe + intangibles),
        (''NonCurrentLiabilities'', debt)]"
  by (simp add: computed_vals_of_def computed_nodes_eq total_nodes py_sum_def dict_get_def)

lemma merged_explicit:
  "dict_merge
     [(''Cash'', cash), (''AR'', ar), (''Inventory'', inventory), (''PPE'', ppe),
      (''Intangibles'', intangibles), (''AP'', ap), (''NotesPayable'', notes),
      (''LongTermDebt'', debt), (''OperatingIncome'', opinc), (''NonOperatingIncome'', nonop),
      (''COGS'', cogs), (''SGA'', sga), (''Depreciation'', depr), (''InterestExp'', interest)]
     [(''Assets'', a), (''CurrentAssets'', ca), (''CurrentLiabilities'', cl), (''Equity'', eq),
      (''Expenses'', ex), (''Income'', inc), (''Liabilities'', li), (''NonCurrentAssets'', nca),
      (''NonCurrentLiabilities'', ncl)] =
     [(''Cash'', cash), (''AR'', ar), (''Inventory'', inventory), (''PPE'', ppe),
      (''Intangibles'', intangibles), (''AP'', ap), (''NotesPayable'', notes),
      (''LongTermDebt'', debt), (''OperatingIncome'', opinc), (''NonOperatingIncome'', nonop),
      (''COGS'', cogs), (''SGA'', sga), (''Depreciation'', depr), (''InterestExp'', interest),
      (''Assets'', a), (''CurrentAssets'', ca), (''CurrentLiabilities'', cl), (''Equity'', eq),
      (''Expenses'', ex), (''Income'', inc), (''Liabilities'', li), (''NonCurrentAssets'', nca),
      (''NonCurrentLiabilities'', ncl)]"
  by (simp add: dict_merge_def dict_of_def dict_update_def)

lemma outs_explicit:
  "list_comp (dict_get
     [(''Assets'', a), (''CurrentAssets'', ca), (''CurrentLiabilities'', cl), (''Equity'', eq),
      (''Expenses'', ex), (''Income'', inc), (''Liabilities'', li), (''NonCurrentAssets'', nca),
      (''NonCurrentLiabilities'', ncl)]) computed_nodes =
   Inr [a, ca, cl, eq, ex, inc, li, nca, ncl]"
  by (simp add: computed_nodes_eq dict_get_def)

subsection \<open>The store and the loop over the nodes\<close>

lemma max_val_of_Cons:
  "max_val_of (x # xs) = Inr (if Max (set (x # xs)) = 0 then 1 else Max (set (x # xs)))"
proof -
  have "fold max xs x = Max (set (x # xs))" by (rule Max.set_eq_fold [symmetric])
  then show ?thesis by (simp add: max_val_of_def py_max_def)
qed

lemma max_val_of_nonzero: "max_val_of vs = Inr m \<Longrightarrow> m \<noteq> 0"
  by (cases vs) (auto simp add: max_val_of_def py_max_def split: if_splits)

lemma list_append_Some:
  "objs s r = Some xs \<Longrightarrow> list_append s r x = s\<lparr>objs := (objs s)(r \<mapsto> xs @ [x])\<rparr>"
  by (simp add: list_append_def)

lemma double_overflow_small: "\<bar>q\<bar> \<le> 2 \<Longrightarrow> \<not> double_overflow q"
proof -
  have "(2 :: rat) ^ 970 \<le> 2 ^ 1023" by (rule power_increasing) simp_all
  moreover have "(2 :: rat) ^ 1024 = 2 * 2 ^ 1023" by simp
  moreover have "(2 :: rat) ^ 2 \<le> 2 ^ 1023" by (rule power_increasing) simp_all
  ultimately have "(2 :: rat) < 2 ^ 1024 - 2 ^ 970" by simp
  then show "\<bar>q\<bar> \<le> 2 \<Longrightarrow> \<not> double_overflow q" by (simp add: double_overflow_def)
qed

lemma node_size_cases:
  assumes "max_val \<noteq> 0"
  shows "node_size v max_val =
     (if double_overflow (of_int v / of_int max_val) then Inl OverflowError
      else Inr (30 + of_int v / of_int max_val * 70))"
  using assms by (simp add: node_size_def weight_def)

lemma resize_nodes_ok:
  "max_val \<noteq> 0 \<Longrightarrow> objs s r = Some xs \<Longrightarrow> \<not> overflowing items max_val \<Longrightarrow>
   resize_nodes items max_val r s =
     (Inr (),
      s\<lparr>objs := (objs s)(r \<mapsto>
           xs @ map (\<lambda>(nid, v). node_rule nid (30 + of_int v / of_int max_val * 70)) items)\<rparr>)"
proof (induction items arbitrary: s xs)
  case Nil
  then have "(objs s)(r \<mapsto> xs) = objs s" by (simp add: fun_upd_idem)
  then show ?case by simp
next
  case (Cons item items)
  obtain nid v where item: "item = (nid, v)" by (cases item)
  from Cons.prems(3) have fits: "\<not> double_overflow (of_int v / of_int max_val)"
    and rest: "\<not> overflowing items max_val"
    by (simp_all add: overflowing_def item)
  let ?x = "node_rule nid (30 + of_int v / of_int max_val * 70)"
  let ?s = "s\<lparr>objs := (objs s)(r \<mapsto> xs @ [?x])\<rparr>"
  have "objs ?s r = Some (xs @ [?x])" by simp
  from Cons.IH [OF Cons.prems(1) this rest]
  have B: "resize_nodes items max_val r ?s =
          (Inr (), s\<lparr>objs := (objs s)(r \<mapsto> (xs @ [?x]) @
             map (\<lambda>(nid, v). node_rule nid (30 + of_int v / of_int max_val * 70)) items)\<rparr>)"
    by (cases s) (simp add: fun_eq_iff)
  have A: "resize_nodes (item # items) max_val r s = resize_nodes items max_val r ?s"
    using Cons.prems(1,2) fits by (simp add: item node_size_cases list_append_Some)
  show ?case
    unfolding A B by (simp only: item list.map prod.case append_assoc append_Cons append_Nil)
qed

lemma resize_nodes_result:
  "max_val \<noteq> 0 \<Longrightarrow>
   fst (resize_nodes items max_val r s) =
     (if overflowing items max_val then Inl OverflowError else Inr ())"
proof (induction items arbitrary: s)
  case Nil
  show ?case by (simp add: overflowing_def)
next
  case (Cons item items)
  obtain nid v where item: "item = (nid, v)" by (cases item)
  show ?case
  proof (cases "double_overflow (of_int v / of_int max_val)")
    case True
    with Cons.prems show ?thesis by (simp add: item node_size_cases overflowing_def)
  next
    case False
    with Cons.prems Cons.IH [OF Cons.prems, of "list_append s r (node_rule nid (30 + of_int v / of_int max_val * 70))"]
    show ?thesis by (simp add: item node_size_cases overflowing_def)
  qed
qed

lemma resize_nodes_frame:
  "resize_nodes items max_val r s = (res, s') \<Longrightarrow>
   next_ref s' = next_ref s \<and> (\<forall>a. a \<noteq> r \<longrightarrow> objs s' a = objs s a) \<and>
   (objs s r \<noteq> None \<longrightarrow> objs s' r \<noteq> None)"
proof (induction items max_val r s rule: resize_nodes.induct)
  case (1 max_val stylesheet s)
  then show ?case by simp
next
  case (2 nid v items max_val stylesheet s)
  show ?case
  proof (cases "node_size v max_val")
    case (Inl e)
    with "2.prems" show ?thesis by simp
  next
    case (Inr sz)
    let ?s = "list_append s stylesheet (node_rule nid sz)"
    from "2.prems" Inr have "resize_nodes items max_val stylesheet ?s = (res, s')" by simp
    from "2.IH" [OF Inr this]
    show ?thesis by (auto simp add: list_append_def split: option.splits)
  qed
qed

subsection \<open>A call with a complete snapshot\<close>

lemma callback_complete:
  assumes complete: "length LEAF_NODES \<le> length vals"
    and sheet: "objs s stylesheet_ref = Some sheet"
  shows "\<exists>cv m.
     computed_vals_of (leaf_vals_of vals) = Inr cv \<and> map fst cv = computed_nodes \<and>
     max_val_of (all_values (leaf_vals_of vals) cv) = Inr m \<and> m \<noteq> 0 \<and>
     dict_merge (leaf_vals_of vals) cv = leaf_vals_of vals @ cv \<and>
     fst (update_graph_and_totals s vals) =
       (if overflowing (dict_merge (leaf_vals_of vals) cv) m then Inl OverflowError
        else Inr (next_ref s, map snd cv)) \<and>
     (\<not> overflowing (dict_merge (leaf_vals_of vals) cv) m \<longrightarrow>
      update_graph_and_totals s vals =
       (Inr (next_ref s, map snd cv),
        s\<lparr>objs := (objs s)(next_ref s \<mapsto> sheet @
               map (\<lambda>(nid, v). node_rule nid (30 + of_int v / of_int m * 70))
                   (leaf_vals_of vals @ cv)),
          next_ref := Suc (next_ref s)\<rparr>))"
proof -
  from complete have "14 \<le> length vals" by (simp add: length_LEAF_NODES)
  from last_n_14 [OF this]
  obtain cash ar inventory ppe intangibles ap npay debt opinc nonop cogs sga depr interest
    where "last_n 14 vals =
      [cash, ar, inventory, ppe, intangibles, ap, npay, debt, opinc, nonop, cogs, sga, depr,
       interest]"
    by blast
  note lv = leaf_vals_explicit [OF this]
  note cv = computed_vals_explicit
    [of cash ar inventory ppe intangibles ap npay debt opinc nonop cogs sga depr interest]
  let ?lv = "leaf_vals_of vals"
  obtain cvs where cvs: "computed_vals_of ?lv = Inr cvs" and keys: "map fst cvs = computed_nodes"
    and merged: "dict_merge ?lv cvs = ?lv @ cvs"
    and outs: "list_comp (dict_get cvs) computed_nodes = Inr (map snd cvs)"
  proof
    show "computed_vals_of ?lv = Inr (projr (computed_vals_of ?lv))"
      unfolding lv cv by simp
    show "map fst (projr (computed_vals_of ?lv)) = computed_nodes"
      unfolding lv cv by (simp add: computed_nodes_eq)
    show "dict_merge ?lv (projr (computed_vals_of ?lv)) = ?lv @ projr (computed_vals_of ?lv)"
      unfolding lv cv by (simp add: merged_explicit)
    show "list_comp (dict_get (projr (computed_vals_of ?lv))) computed_nodes =
            Inr (map snd (projr (computed_vals_of ?lv)))"
      unfolding lv cv by (simp add: outs_explicit)
  qed
  have "all_values ?lv cvs \<noteq> []" by (simp add: all_values_def lv)
  then obtain x xs where "all_values ?lv cvs = x # xs" by (cases "all_values ?lv cvs") simp_all
  then obtain m where m: "max_val_of (all_values ?lv cvs) = Inr m"
    by (simp add: max_val_of_Cons)
  then have m0: "m \<noteq> 0" by (rule max_val_of_nonzero)
  let ?s1 = "s\<lparr>objs := (objs s)(next_ref s \<mapsto> sheet), next_ref := Suc (next_ref s)\<rparr>"
  have copy: "copy_list s stylesheet_ref = (Inr (next_ref s), ?s1)"
    by (simp add: copy_list_def sheet)
  have live: "objs ?s1 (next_ref s) = Some sheet" by simp
  obtain r2 s2 where run: "resize_nodes (?lv @ cvs) m (next_ref s) ?s1 = (r2, s2)"
    by (cases "resize_nodes (?lv @ cvs) m (next_ref s) ?s1")
  from resize_nodes_result [OF m0, of "?lv @ cvs" "next_ref s" ?s1]
  have r2: "r2 = (if overflowing (?lv @ cvs) m then Inl OverflowError else Inr ())"
    by (simp add: run)
  have "update_graph_and_totals s vals =
          (case r2 of Inl e \<Rightarrow> (Inl e, s2) | Inr u \<Rightarrow> (Inr (next_ref s, map snd cvs), s2))"
    unfolding update_graph_and_totals_def Let_def
    by (simp only: cvs m copy merged run outs sum.case prod.case)
  then have result: "fst (update_graph_and_totals s vals) =
       (if overflowing (dict_merge ?lv cvs) m then Inl OverflowError
        else Inr (next_ref s, map snd cvs))"
    by (simp add: r2 merged)
  have returns: "update_graph_and_totals s vals =
       (Inr (next_ref s, map snd cvs),
        s\<lparr>objs := (objs s)(next_ref s \<mapsto> sheet @
               map (\<lambda>(nid, v). node_rule nid (30 + of_int v / of_int m * 70)) (?lv @ cvs)),
          next_ref := Suc (next_ref s)\<rparr>)"
    if fits: "\<not> overflowing (dict_merge ?lv cvs) m"
  proof -
    from fits have "\<not> overflowing (?lv @ cvs) m" by (simp add: merged)
    note loop = resize_nodes_ok [OF m0 live this]
    have "update_graph_and_totals s vals =
       (Inr (next_ref s, map snd cvs),
        ?s1\<lparr>objs := (objs ?s1)(next_ref s \<mapsto> sheet @
               map (\<lambda>(nid, v). node_rule nid (30 + of_int v / of_int m * 70)) (?lv @ cvs))\<rparr>)"
      unfolding update_graph_and_totals_def Let_def
      by (simp only: cvs m copy merged loop outs sum.case prod.case)
    also have "?s1\<lparr>objs := (objs ?s1)(next_ref s \<mapsto> sheet @
               map (\<lambda>(nid, v). node_rule nid (30 + of_int v / of_int m * 70)) (?lv @ cvs))\<rparr> =
         s\<lparr>objs := (objs s)(next_ref s \<mapsto> sheet @
               map (\<lambda>(nid, v). node_rule nid (30 + of_int v / of_int m * 70)) (?lv @ cvs)),
          next_ref := Suc (next_ref s)\<rparr>"
      by (cases s) (simp add: fun_eq_iff)
    finally show ?thesis .
  qed
  from cvs keys m m0 merged result returns show ?thesis by blast
qed

lemma complete_explicit:
  assumes "length LEAF_NODES \<le> length vals"
  obtains cash ar inventory ppe intangibles ap npay debt opinc nonop cogs sga depr interest
  where "last_n 14 vals =
      [cash, ar, inventory, ppe, intangibles, ap, npay, debt, opinc, nonop, cogs, sga, depr,
       interest]"
    and "leaf_vals_of vals =
     [(''Cash'', cash), (''AR'', ar), (''Inventory'', inventory), (''PPE'', ppe),
      (''Intangibles'', intangibles), (''AP'', ap), (''NotesPayable'', npay),
      (''LongTermDebt'', debt), (''OperatingIncome'', opinc), (''NonOperatingIncome'', nonop),
      (''COGS'', cogs), (''SGA'', sga), (''Depreciation'', depr), (''InterestExp'', interest)]"
    and "computed_vals_of (leaf_vals_of vals) =
     Inr [(''Assets'', cash + ar + inventory + (ppe + intangibles)),
        (''CurrentAssets'', cash + ar + inventory),
        (''CurrentLiabilities'', ap + npay),
        (''Equity'', cash + ar + inventory + (ppe + intangibles) + (opinc + nonop)
                     - (cogs + sga + depr + interest) - (ap + npay + debt)),
        (''Expenses'', cogs + sga + depr + interest),
        (''Income'', opinc + nonop),
        (''Liabilities'', ap + npay + debt),
        (''NonCurrentAssets'', ppe + intangibles),
        (''NonCurrentLiabilities'', debt)]"
proof -
  from assms have "14 \<le> length vals" by (simp add: length_LEAF_NODES)
  from last_n_14 [OF this]
  obtain cash ar inventory ppe intangibles ap npay debt opinc nonop cogs sga depr interest
    where l: "last_n 14 vals =
      [cash, ar, inventory, ppe, intangibles, ap, npay, debt, opinc, nonop, cogs, sga, depr,
       interest]"
    by blast
  note lv = leaf_vals_explicit [OF l]
  show thesis
    by (rule that [OF l lv]) (simp only: lv computed_vals_explicit)
qed

lemma children_in_values:
  assumes lv: "lv =
     [(''Cash'', cash), (''AR'', ar), (''Inventory'', inventory), (''PPE'', ppe),
      (''Intangibles'', intangibles), (''AP'', ap), (''NotesPayable'', npay),
      (''LongTermDebt'', debt), (''OperatingIncome'', opinc), (''NonOperatingIncome'', nonop),
      (''COGS'', cogs), (''SGA'', sga), (''Depreciation'', depr), (''InterestExp'', interest)]"
    and cv: "cv =
       [(''Assets'', cash + ar + inventory + (ppe + intangibles)),
        (''CurrentAssets'', cash + ar + inventory),
        (''CurrentLiabilities'', ap + npay),
        (''Equity'', cash + ar + inventory + (ppe + intangibles) + (opinc + nonop)
                     - (cogs + sga + depr + interest) - (ap + npay + debt)),
        (''Expenses'', cogs + sga + depr + interest),
        (''Income'', opinc + nonop),
        (''Liabilities'', ap + npay + debt),
        (''NonCurrentAssets'', ppe + intangibles),
        (''NonCurrentLiabilities'', debt)]"
  shows "\<forall>(node, kids) \<in> set TREE.
           list_all (\<lambda>ch. map_of (dict_merge lv cv) ch \<noteq> None) kids \<and>
           map_of cv node = Some (sum_list (map (\<lambda>ch. the (map_of (dict_merge lv cv) ch)) kids))"
  unfolding lv cv merged_explicit by (simp add: TREE_def add.assoc)

lemma init_store_sheet: "objs init_store stylesheet_ref = Some base_stylesheet"
  by (simp add: init_store_def)

lemma reference_complete: "length LEAF_NODES \<le> length (map snd LEAF_NODES)"
  by simp

subsection \<open>Effects of a call on the store\<close>

lemma copy_list_frame:
  assumes "copy_list s r = (res, s1)"
  shows "(\<forall>a. a \<noteq> next_ref s \<longrightarrow> objs s1 a = objs s a) \<and>
         (\<forall>r1. res = Inr r1 \<longrightarrow> r1 = next_ref s \<and> objs s1 r1 = objs s r \<and> objs s r \<noteq> None \<and> 
               next_ref s1 = Suc (next_ref s)) \<and>
         (\<forall>e. res = Inl e \<longrightarrow> s1 = s)"
  using assms by (auto simp add: copy_list_def split: option.splits)

lemma callback_frame_lemma:
  assumes "update_graph_and_totals s vals = (res, s')"
  shows "(\<forall>a. a \<noteq> next_ref s \<longrightarrow> objs s' a = objs s a) \<and>
         next_ref s \<le> next_ref s' \<and> next_ref s' \<le> Suc (next_ref s) \<and>
         (objs s' (next_ref s) \<noteq> objs s (next_ref s) \<longrightarrow> next_ref s' = Suc (next_ref s)) \<and>
         (\<forall>stylesheet outs. res = Inr (stylesheet, outs) \<longrightarrow>
            stylesheet = next_ref s \<and> objs s' stylesheet \<noteq> None \<and>
            next_ref s' = Suc (next_ref s))"
proof (cases "computed_vals_of (leaf_vals_of vals)")
  case (Inl e)
  with assms show ?thesis by (auto simp add: update_graph_and_totals_def)
next
  case cv: (Inr cv)
  show ?thesis
  proof (cases "max_val_of (all_values (leaf_vals_of vals) cv)")
    case (Inl e)
    with assms cv show ?thesis by (auto simp add: update_graph_and_totals_def)
  next
    case m: (Inr m)
    obtain r1 s1 where copy: "copy_list s stylesheet_ref = (r1, s1)"
      by (cases "copy_list s stylesheet_ref")
    note c = copy_list_frame [OF copy]
    show ?thesis
    proof (cases r1)
      case (Inl e)
      with assms cv m copy c show ?thesis by (auto simp add: update_graph_and_totals_def)
    next
      case r: (Inr sheet)
      obtain r2 s2 where loop:
        "resize_nodes (dict_merge (leaf_vals_of vals) cv) m sheet s1 = (r2, s2)"
        by (cases "resize_nodes (dict_merge (leaf_vals_of vals) cv) m sheet s1")
      note l = resize_nodes_frame [OF loop]
      from c r have sheet: "sheet = next_ref s" and s1: "next_ref s1 = Suc (next_ref s)"
        and live: "objs s1 sheet \<noteq> None" by auto
      from l live have live2: "objs s2 sheet \<noteq> None" by simp
      have frame: "\<forall>a. a \<noteq> next_ref s \<longrightarrow> objs s2 a = objs s a"
        using c l sheet by simp
      have nr: "next_ref s2 = Suc (next_ref s)" using l s1 by simp
      have "s' = s2"
        using assms cv m copy r loop
        by (auto simp add: update_graph_and_totals_def split: sum.splits)
      moreover have "\<forall>stylesheet outs. res = Inr (stylesheet, outs) \<longrightarrow> stylesheet = sheet"
        using assms cv m copy r loop
        by (auto simp add: update_graph_and_totals_def split: sum.splits)
      ultimately show ?thesis using frame nr live2 sheet by auto
    qed
  qed
qed

lemma store_ok_preserved:
  assumes "store_ok s" and "update_graph_and_totals s vals = (res, s')"
  shows "store_ok s'"
  unfolding store_ok_def
proof (intro allI impI)
  fix r assume r: "next_ref s' \<le> r"
  note f = callback_frame_lemma [OF assms(2)]
  from f r have "next_ref s \<le> r" by simp
  with assms(1) have none: "objs s r = None" by (simp add: store_ok_def)
  show "objs s' r = None"
  proof (cases "r = next_ref s")
    case True
    show ?thesis
    proof (rule ccontr)
      assume "objs s' r \<noteq> None"
      with none True f have "next_ref s' = Suc (next_ref s)" by metis
      with r True show False by simp
    qed
  next
    case False
    with f none show ?thesis by simp
  qed
qed

lemma resize_nodes_rel:
  "objs s r = objs t r' \<Longrightarrow>
   fst (resize_nodes items m r s) = fst (resize_nodes items m r' t) \<and>
   objs (snd (resize_nodes items m r s)) r = objs (snd (resize_nodes items m r' t)) r'"
proof (induction items arbitrary: s t)
  case Nil
  then show ?case by simp
next
  case (Cons item items)
  obtain nid v where item: "item = (nid, v)" by (cases item)
  show ?case
  proof (cases "node_size v m")
    case (Inl e)
    with Cons.prems show ?thesis by (simp add: item)
  next
    case (Inr sz)
    have "objs (list_append s r (node_rule nid sz)) r = objs (list_append t r' (node_rule nid sz)) r'"
      using Cons.prems by (simp add: list_append_def split: option.splits)
    from Cons.IH [OF this] Inr show ?thesis by (simp add: item)
  qed
qed

lemma observe_same:
  assumes "objs s stylesheet_ref = objs t stylesheet_ref"
  shows "observe (update_graph_and_totals s vals) = observe (update_graph_and_totals t vals)"
proof (cases "computed_vals_of (leaf_vals_of vals)")
  case (Inl e)
  then show ?thesis by (simp add: update_graph_and_totals_def observe_def)
next
  case cv: (Inr cv)
  show ?thesis
  proof (cases "max_val_of (all_values (leaf_vals_of vals) cv)")
    case (Inl e)
    with cv show ?thesis by (simp add: update_graph_and_totals_def observe_def)
  next
    case m: (Inr m)
    show ?thesis
    proof (cases "objs s stylesheet_ref")
      case None
      with assms have "objs t stylesheet_ref = None" by simp
      with None cv m show ?thesis
        by (simp add: update_graph_and_totals_def observe_def copy_list_def)
    next
      case (Some sheet)
      with assms have t: "objs t stylesheet_ref = Some sheet" by simp
      let ?s1 = "s\<lparr>objs := (objs s)(next_ref s \<mapsto> sheet), next_ref := Suc (next_ref s)\<rparr>"
      let ?t1 = "t\<lparr>objs := (objs t)(next_ref t \<mapsto> sheet), next_ref := Suc (next_ref t)\<rparr>"
      let ?items = "dict_merge (leaf_vals_of vals) cv"
      have cs: "copy_list s stylesheet_ref = (Inr (next_ref s), ?s1)"
        and ct: "copy_list t stylesheet_ref = (Inr (next_ref t), ?t1)"
        using Some t by (simp_all add: copy_list_def)
      have "objs ?s1 (next_ref s) = objs ?t1 (next_ref t)" by simp
      note rel = resize_nodes_rel [OF this, of ?items m]
      obtain r2 s2 where ls: "resize_nodes ?items m (next_ref s) ?s1 = (r2, s2)"
        by (cases "resize_nodes ?items m (next_ref s) ?s1")
      obtain r3 t2 where lt: "resize_nodes ?items m (next_ref t) ?t1 = (r3, t2)"
        by (cases "resize_nodes ?items m (next_ref t) ?t1")
      from rel have same: "r3 = r2" "objs s2 (next_ref s) = objs t2 (next_ref t)"
        unfolding ls lt by simp_all
      show ?thesis
        unfolding update_graph_and_totals_def Let_def
        by (simp only: cv m cs ct ls lt same sum.case prod.case)
           (simp add: observe_def same split: sum.splits)
    qed
  qed
qed

lemma reachable_inv:
  "reachable s \<Longrightarrow> store_ok s \<and> objs s stylesheet_ref = Some base_stylesheet"
proof (induction rule: reachable.induct)
  case start
  show ?case by (simp add: init_store_def store_ok_def stylesheet_ref_def)
next
  case (call s vals)
  obtain res s' where run: "update_graph_and_totals s vals = (res, s')"
    by (cases "update_graph_and_totals s vals")
  from call.IH have ok: "store_ok s" and sheet: "objs s stylesheet_ref = Some base_stylesheet"
    by simp_all
  from ok sheet have "stylesheet_ref \<noteq> next_ref s"
    unfolding store_ok_def by (metis le_refl option.distinct(1))
  with callback_frame_lemma [OF run] sheet
  have "objs s' stylesheet_ref = Some base_stylesheet" by simp
  with store_ok_preserved [OF ok run] show ?case by (simp add: run)
qed

lemma store_ok_init: "store_ok init_store"
  by (simp add: init_store_def store_ok_def stylesheet_ref_def)

text \<open>
  C9. The only objects a call writes to are lists of the store: \<open>TREE\<close>, \<open>LEAF_NODES\<close> and
  \<open>ROOTS\<close> are read (membership, lookup, iteration) and never assigned or updated, so the
  model has them as constants. In a store whose references from \<open>next_ref\<close> on are unused,
  whatever the values passed and whether the call returns or raises: every list that
  existed before the call, the component's stylesheet among them, holds the same items
  after it; and the stylesheet a call returns is a list that did not exist before.
\<close>

theorem callback_has_no_side_effects:
  assumes "store_ok s" and "update_graph_and_totals s vals = (res, s')"
  shows "(\<forall>r \<in> dom (objs s). objs s' r = objs s r) \<and> store_ok s' \<and>
         (\<forall>stylesheet outs. res = Inr (stylesheet, outs) \<longrightarrow>
            stylesheet \<notin> dom (objs s) \<and> stylesheet \<in> dom (objs s'))"
proof -
  note f = callback_frame_lemma [OF assms(2)]
  from assms(1) have fresh: "next_ref s \<notin> dom (objs s)"
    by (auto simp add: store_ok_def)
  have "\<forall>r \<in> dom (objs s). objs s' r = objs s r"
  proof
    fix r assume "r \<in> dom (objs s)"
    with fresh have "r \<noteq> next_ref s" by blast
    with f show "objs s' r = objs s r" by simp
  qed
  moreover have "\<forall>stylesheet outs. res = Inr (stylesheet, outs) \<longrightarrow>
            stylesheet \<notin> dom (objs s) \<and> stylesheet \<in> dom (objs s')"
    using f fresh by (auto simp add: dom_def)
  ultimately show ?thesis using store_ok_preserved [OF assms] by simp
qed

theorem callback_has_no_side_effects_witness:
  "store_ok init_store \<and>
   objs (snd (update_graph_and_totals init_store (map snd LEAF_NODES))) stylesheet_ref =
     Some base_stylesheet \<and>
   store_ok (snd (update_graph_and_totals init_store (map snd LEAF_NODES)))"
proof -
  let ?out = "update_graph_and_totals init_store (map snd LEAF_NODES)"
  have run: "?out = (fst ?out, snd ?out)" by simp
  have "stylesheet_ref \<in> dom (objs init_store)" by (simp add: init_store_def)
  with callback_has_no_side_effects [OF store_ok_init run]
  have "objs (snd ?out) stylesheet_ref = objs init_store stylesheet_ref"
    and "store_ok (snd ?out)" by simp_all
  with store_ok_init init_store_sheet show ?thesis by simp
qed

text \<open>
  C6. A call keeps nothing from earlier calls. In any two stores that a process can reach
  (after start-up and after any calls, with any values, returning or raising), a call with
  the same values gives the same observation: the same exception, or the same items in the
  returned stylesheet and the same values for the computed sliders.
\<close>

theorem callback_deterministic:
  assumes "reachable s" and "reachable t"
  shows "observe (update_graph_and_totals s vals) = observe (update_graph_and_totals t vals)"
proof -
  from assms have "objs s stylesheet_ref = objs t stylesheet_ref"
    by (simp add: reachable_inv)
  then show ?thesis by (rule observe_same)
qed

theorem callback_deterministic_witness:
  "reachable init_store \<and>
   reachable (snd (update_graph_and_totals init_store (map snd LEAF_NODES))) \<and>
   observe (update_graph_and_totals init_store (map snd LEAF_NODES)) =
   observe (update_graph_and_totals
              (snd (update_graph_and_totals init_store (map snd LEAF_NODES)))
              (map snd LEAF_NODES))"
proof -
  have a: "reachable init_store" by (rule reachable.start)
  then have b: "reachable (snd (update_graph_and_totals init_store (map snd LEAF_NODES)))"
    by (rule reachable.call)
  from a b callback_deterministic [OF a b, of "map snd LEAF_NODES"] show ?thesis by simp
qed

subsection \<open>A call with an incomplete snapshot\<close>

lemma short_snapshot_0:
  assumes "length vals = 0"
  shows "computed_vals_of (leaf_vals_of vals) = Inl (KeyError (map fst LEAF_NODES ! length vals)) \<and>
         missing_leaves (leaf_vals_of vals) = drop (length vals) (map fst LEAF_NODES)"
proof -
  from assms have vals: "vals = []" by simp
  have lv: "leaf_vals_of vals = zip (take 0 (map fst LEAF_NODES)) vals"
    unfolding vals by (simp add: leaf_vals_of_def last_n_def length_LEAF_NODES leaf_names dict_of_def dict_update_def)
  show ?thesis
    unfolding lv unfolding vals
    by (simp add: missing_leaves_def leaf_names computed_vals_of_def computed_nodes_eq total_nodes
          py_sum_def dict_get_def)
qed

lemma short_snapshot_1:
  assumes "length vals = 1"
  shows "computed_vals_of (leaf_vals_of vals) = Inl (KeyError (map fst LEAF_NODES ! length vals)) \<and>
         missing_leaves (leaf_vals_of vals) = drop (length vals) (map fst LEAF_NODES)"
proof -
  from assms obtain x1 where vals: "vals = [x1]"
    by (auto simp add: eval_nat_numeral length_Suc_conv)
  have lv: "leaf_vals_of vals = zip (take 1 (map fst LEAF_NODES)) vals"
    unfolding vals by (simp add: leaf_vals_of_def last_n_def length_LEAF_NODES leaf_names dict_of_def dict_update_def)
  show ?thesis
    unfolding lv unfolding vals
    by (simp add: missing_leaves_def leaf_names computed_vals_of_def computed_nodes_eq total_nodes
          py_sum_def dict_get_def)
qed

lemma short_snapshot_2:
  assumes "length vals = 2"
  shows "computed_vals_of (leaf_vals_of vals) = Inl (KeyError (map fst LEAF_NODES ! length vals)) \<and>
         missing_leaves (leaf_vals_of vals) = drop (length vals) (map fst LEAF_NODES)"
proof -
  from assms obtain x1 x2 where vals: "vals = [x1, x2]"
    by (auto simp add: eval_nat_numeral length_Suc_conv)
  have lv: "leaf_vals_of vals = zip (take 2 (map fst LEAF_NODES)) vals"
    unfolding vals by (simp add: leaf_vals_of_def last_n_def length_LEAF_NODES leaf_names dict_of_def dict_update_def)
  show ?thesis
    unfolding lv unfolding vals
    by (simp add: missing_leaves_def leaf_names computed_vals_of_def computed_nodes_eq total_nodes
          py_sum_def dict_get_def)
qed

lemma short_snapshot_3:
  assumes "length vals = 3"
  shows "computed_vals_of (leaf_vals_of vals) = Inl (KeyError (map fst LEAF_NODES ! length vals)) \<and>
         missing_leaves (leaf_vals_of vals) = drop (length vals) (map fst LEAF_NODES)"
proof -
  from assms obtain x1 x2 x3 where vals: "vals = [x1, x2, x3]"
    by (auto simp add: eval_nat_numeral length_Suc_conv)
  have lv: "leaf_vals_of vals = zip (take 3 (map fst LEAF_NODES)) vals"
    unfolding vals by (simp add: leaf_vals_of_def last_n_def length_LEAF_NODES leaf_names dict_of_def dict_update_def)
  show ?thesis
    unfolding lv unfolding vals
    by (simp add: missing_leaves_def leaf_names computed_vals_of_def computed_nodes_eq total_nodes
          py_sum_def dict_get_def)
qed

lemma short_snapshot_4:
  assumes "length vals = 4"
  shows "computed_vals_of (leaf_vals_of vals) = Inl (KeyError (map fst LEAF_NODES ! length vals)) \<and>
         missing_leaves (leaf_vals_of vals) = drop (length vals) (map fst LEAF_NODES)"
proof -
  from assms obtain x1 x2 x3 x4 where vals: "vals = [x1, x2, x3, x4]"
    by (auto simp add: eval_nat_numeral length_Suc_conv)
  have lv: "leaf_vals_of vals = zip (take 4 (map fst LEAF_NODES)) vals"
    unfolding vals by (simp add: leaf_vals_of_def last_n_def length_LEAF_NODES leaf_names dict_of_def dict_update_def)
  show ?thesis
    unfolding lv unfolding vals
    by (simp add: missing_leaves_def leaf_names computed_vals_of_def computed_nodes_eq total_nodes
          py_sum_def dict_get_def)
qed

lemma short_snapshot_5:
  assumes "length vals = 5"
  shows "computed_vals_of (leaf_vals_of vals) = Inl (KeyError (map fst LEAF_NODES ! length vals)) \<and>
         missing_leaves (leaf_vals_of vals) = drop (length vals) (map fst LEAF_NODES)"
proof -
  from assms obtain x1 x2 x3 x4 x5 where vals: "vals = [x1, x2, x3, x4, x5]"
    by (auto simp add: eval_nat_numeral length_Suc_conv)
  have lv: "leaf_vals_of vals = zip (take 5 (map fst LEAF_NODES)) vals"
    unfolding vals by (simp add: leaf_vals_of_def last_n_def length_LEAF_NODES leaf_names dict_of_def dict_update_def)
  show ?thesis
    unfolding lv unfolding vals
    by (simp add: missing_leaves_def leaf_names computed_vals_of_def computed_nodes_eq total_nodes
          py_sum_def dict_get_def)
qed

lemma short_snapshot_6:
  assumes "length vals = 6"
  shows "computed_vals_of (leaf_vals_of vals) = Inl (KeyError (map fst LEAF_NODES ! length vals)) \<and>
         missing_leaves (leaf_vals_of vals) = drop (length vals) (map fst LEAF_NODES)"
proof -
  from assms obtain x1 x2 x3 x4 x5 x6 where vals: "vals = [x1, x2, x3, x4, x5, x6]"
    by (auto simp add: eval_nat_numeral length_Suc_conv)
  have lv: "leaf_vals_of vals = zip (take 6 (map fst LEAF_NODES)) vals"
    unfolding vals by (simp add: leaf_vals_of_def last_n_def length_LEAF_NODES leaf_names dict_of_def dict_update_def)
  show ?thesis
    unfolding lv unfolding vals
    by (simp add: missing_leaves_def leaf_names computed_vals_of_def computed_nodes_eq total_nodes
          py_sum_def dict_get_def)
qed

lemma short_snapshot_7:
  assumes "length vals = 7"
  shows "computed_vals_of (leaf_vals_of vals) = Inl (KeyError (map fst LEAF_NODES ! length vals)) \<and>
         missing_leaves (leaf_vals_of vals) = drop (length vals) (map fst LEAF_NODES)"
proof -
  from assms obtain x1 x2 x3 x4 x5 x6 x7 where vals: "vals = [x1, x2, x3, x4, x5, x6, x7]"
    by (auto simp add: eval_nat_numeral length_Suc_conv)
  have lv: "leaf_vals_of vals = zip (take 7 (map fst LEAF_NODES)) vals"
    unfolding vals by (simp add: leaf_vals_of_def last_n_def length_LEAF_NODES leaf_names dict_of_def dict_update_def)
  show ?thesis
    unfolding lv unfolding vals
    by (simp add: missing_leaves_def leaf_names computed_vals_of_def computed_nodes_eq total_nodes
          py_sum_def dict_get_def)
qed

lemma short_snapshot_8:
  assumes "length vals = 8"
  shows "computed_vals_of (leaf_vals_of vals) = Inl (KeyError (map fst LEAF_NODES ! length vals)) \<and>
         missing_leaves (leaf_vals_of vals) = drop (length vals) (map fst LEAF_NODES)"
proof -
  from assms obtain x1 x2 x3 x4 x5 x6 x7 x8 where vals: "vals = [x1, x2, x3, x4, x5, x6, x7, x8]"
    by (auto simp add: eval_nat_numeral length_Suc_conv)
  have lv: "leaf_vals_of vals = zip (take 8 (map fst LEAF_NODES)) vals"
    unfolding vals by (simp add: leaf_vals_of_def last_n_def length_LEAF_NODES leaf_names dict_of_def dict_update_def)
  show ?thesis
    unfolding lv unfolding vals
    by (simp add: missing_leaves_def leaf_names computed_vals_of_def computed_nodes_eq total_nodes
          py_sum_def dict_get_def)
qed

lemma short_snapshot_9:
  assumes "length vals = 9"
  shows "computed_vals_of (leaf_vals_of vals) = Inl (KeyError (map fst LEAF_NODES ! length vals)) \<and>
         missing_leaves (leaf_vals_of vals) = drop (length vals) (map fst LEAF_NODES)"
proof -
  from assms obtain x1 x2 x3 x4 x5 x6 x7 x8 x9 where vals: "vals = [x1, x2, x3, x4, x5, x6, x7, x8, x9]"
    by (auto simp add: eval_nat_numeral length_Suc_conv)
  have lv: "leaf_vals_of vals = zip (take 9 (map fst LEAF_NODES)) vals"
    unfolding vals by (simp add: leaf_vals_of_def last_n_def length_LEAF_NODES leaf_names dict_of_def dict_update_def)
  show ?thesis
    unfolding lv unfolding vals
    by (simp add: missing_leaves_def leaf_names computed_vals_of_def computed_nodes_eq total_nodes
          py_sum_def dict_get_def)
qed

lemma short_snapshot_10:
  assumes "length vals = 10"
  shows "computed_vals_of (leaf_vals_of vals) = Inl (KeyError (map fst LEAF_NODES ! length vals)) \<and>
         missing_leaves (leaf_vals_of vals) = drop (length vals) (map fst LEAF_NODES)"
proof -
  from assms obtain x1 x2 x3 x4 x5 x6 x7 x8 x9 x10 where vals: "vals = [x1, x2, x3, x4, x5, x6, x7, x8, x9, x10]"
    by (auto simp add: eval_nat_numeral length_Suc_conv)
  have lv: "leaf_vals_of vals = zip (take 10 (map fst LEAF_NODES)) vals"
    unfolding vals by (simp add: leaf_vals_of_def last_n_def length_LEAF_NODES leaf_names dict_of_def dict_update_def)
  show ?thesis
    unfolding lv unfolding vals
    by (simp add: missing_leaves_def leaf_names computed_vals_of_def computed_nodes_eq total_nodes
          py_sum_def dict_get_def)
qed

lemma short_snapshot_11:
  assumes "length vals = 11"
  shows "computed_vals_of (leaf_vals_of vals) = Inl (KeyError (map fst LEAF_NODES ! length vals)) \<and>
         missing_leaves (leaf_vals_of vals) = drop (length vals) (map fst LEAF_NODES)"
proof -
  from assms obtain x1 x2 x3 x4 x5 x6 x7 x8 x9 x10 x11 where vals: "vals = [x1, x2, x3, x4, x5, x6, x7, x8, x9, x10, x11]"
    by (auto simp add: eval_nat_numeral length_Suc_conv)
  have lv: "leaf_vals_of vals = zip (take 11 (map fst LEAF_NODES)) vals"
    unfolding vals by (simp add: leaf_vals_of_def last_n_def length_LEAF_NODES leaf_names dict_of_def dict_update_def)
  show ?thesis
    unfolding lv unfolding vals
    by (simp add: missing_leaves_def leaf_names computed_vals_of_def computed_nodes_eq total_nodes
          py_sum_def dict_get_def)
qed

lemma short_snapshot_12:
  assumes "length vals = 12"
  shows "computed_vals_of (leaf_vals_of vals) = Inl (KeyError (map fst LEAF_NODES ! length vals)) \<and>
         missing_leaves (leaf_vals_of vals) = drop (length vals) (map fst LEAF_NODES)"
proof -
  from assms obtain x1 x2 x3 x4 x5 x6 x7 x8 x9 x10 x11 x12 where vals: "vals = [x1, x2, x3, x4, x5, x6, x7, x8, x9, x10, x11, x12]"
    by (auto simp add: eval_nat_numeral length_Suc_conv)
  have lv: "leaf_vals_of vals = zip (take 12 (map fst LEAF_NODES)) vals"
    unfolding vals by (simp add: leaf_vals_of_def last_n_def length_LEAF_NODES leaf_names dict_of_def dict_update_def)
  show ?thesis
    unfolding lv unfolding vals
    by (simp add: missing_leaves_def leaf_names computed_vals_of_def computed_nodes_eq total_nodes
          py_sum_def dict_get_def)
qed

lemma short_snapshot_13:
  assumes "length vals = 13"
  shows "computed_vals_of (leaf_vals_of vals) = Inl (KeyError (map fst LEAF_NODES ! length vals)) \<and>
         missing_leaves (leaf_vals_of vals) = drop (length vals) (map fst LEAF_NODES)"
proof -
  from assms obtain x1 x2 x3 x4 x5 x6 x7 x8 x9 x10 x11 x12 x13 where vals: "vals = [x1, x2, x3, x4, x5, x6, x7, x8, x9, x10, x11, x12, x13]"
    by (auto simp add: eval_nat_numeral length_Suc_conv)
  have lv: "leaf_vals_of vals = zip (take 13 (map fst LEAF_NODES)) vals"
    unfolding vals by (simp add: leaf_vals_of_def last_n_def length_LEAF_NODES leaf_names dict_of_def dict_update_def)
  show ?thesis
    unfolding lv unfolding vals
    by (simp add: missing_leaves_def leaf_names computed_vals_of_def computed_nodes_eq total_nodes
          py_sum_def dict_get_def)
qed

lemma short_snapshot:
  assumes "length vals < length LEAF_NODES"
  shows "computed_vals_of (leaf_vals_of vals) = Inl (KeyError (map fst LEAF_NODES ! length vals)) \<and>
         missing_leaves (leaf_vals_of vals) = drop (length vals) (map fst LEAF_NODES)"
proof -
  from assms have "length vals < 14" by (simp add: length_LEAF_NODES)
  then have "length vals = 0 \<or> length vals = 1 \<or> length vals = 2 \<or> length vals = 3 \<or>
      length vals = 4 \<or> length vals = 5 \<or> length vals = 6 \<or> length vals = 7 \<or>
      length vals = 8 \<or> length vals = 9 \<or> length vals = 10 \<or> length vals = 11 \<or>
      length vals = 12 \<or> length vals = 13"
    by arith
  then consider "length vals = 0" | "length vals = 1" | "length vals = 2" | "length vals = 3"
    | "length vals = 4" | "length vals = 5" | "length vals = 6" | "length vals = 7"
    | "length vals = 8" | "length vals = 9" | "length vals = 10" | "length vals = 11"
    | "length vals = 12" | "length vals = 13"
    by blast
  then show ?thesis
    by cases
      (rule short_snapshot_0 short_snapshot_1 short_snapshot_2 short_snapshot_3 short_snapshot_4
        short_snapshot_5 short_snapshot_6 short_snapshot_7 short_snapshot_8 short_snapshot_9
        short_snapshot_10 short_snapshot_11 short_snapshot_12 short_snapshot_13, assumption)+
qed

text \<open>
  C3, as the code has it. The values arrive by position and are zipped with the leaf names
  in declaration order, so a snapshot that omits a leaf is a call with fewer than 14 values,
  and the leaves without a value are the last ones. The callback has no check of its own:
  the first lookup of a leaf without a value raises Python's \<open>KeyError\<close>, which names that
  one leaf, the first missing one in declaration order. Nothing is returned and no list is
  created or changed.
\<close>

theorem incomplete_snapshot_raises_KeyError:
  assumes "length vals < length LEAF_NODES"
  shows "update_graph_and_totals s vals =
           (Inl (KeyError (map fst LEAF_NODES ! length vals)), s) \<and>
         missing_leaves (leaf_vals_of vals) = drop (length vals) (map fst LEAF_NODES)"
  using short_snapshot [OF assms] by (simp add: update_graph_and_totals_def)

theorem incomplete_snapshot_raises_KeyError_witness:
  "length ([] :: int list) < length LEAF_NODES \<and>
   update_graph_and_totals init_store [] = (Inl (KeyError ''Cash''), init_store) \<and>
   missing_leaves (leaf_vals_of []) = map fst LEAF_NODES"
proof -
  have h: "length ([] :: int list) < length LEAF_NODES" by (simp add: length_LEAF_NODES)
  from incomplete_snapshot_raises_KeyError [OF h, of init_store] h
  show ?thesis by (simp add: leaf_names)
qed

text \<open>
  C3, as stated, fails: with the last two leaves omitted the exception is
  \<open>KeyError('Depreciation')\<close>; it is not a \<open>MissingLeafValueError\<close> (the source has none) and
  it does not list InterestExp, which is missing too.
\<close>

theorem missing_leaves_not_all_named:
  "fst (update_graph_and_totals init_store (take 12 (map snd LEAF_NODES))) =
     Inl (KeyError ''Depreciation'') \<and>
   missing_leaves (leaf_vals_of (take 12 (map snd LEAF_NODES))) =
     [''Depreciation'', ''InterestExp'']"
proof -
  have "length (take 12 (map snd LEAF_NODES)) = 12" by (simp add: length_LEAF_NODES)
  from short_snapshot_12 [OF this] this
  show ?thesis by (simp add: update_graph_and_totals_def leaf_names)
qed

subsection \<open>The divisor of the node sizes\<close>

lemma all_values_merged:
  "dict_merge lv cv = lv @ cv \<Longrightarrow> all_values lv cv = map snd (dict_merge lv cv)"
  by (simp add: all_values_def)

lemma max_val_of_Max:
  assumes "vs \<noteq> []"
  shows "max_val_of vs = Inr (if Max (set vs) = 0 then 1 else Max (set vs))"
  using assms by (cases vs) (simp_all only: max_val_of_Cons list.distinct)

lemma divisor_facts:
  assumes "vs \<noteq> []" and "max_val_of vs = Inr m"
  shows "m = (if Max (set vs) = 0 then 1 else Max (set vs))"
    and "m \<noteq> 0"
    and "0 \<le> Max (set vs) \<Longrightarrow> m = max 1 (Max (set vs))"
    and "\<exists>v \<in> set vs. 0 \<le> v \<Longrightarrow> m = max 1 (Max (set vs))"
    and "\<forall>v \<in> set vs. v = 0 \<Longrightarrow> m = 1"
proof -
  from assms show m: "m = (if Max (set vs) = 0 then 1 else Max (set vs))"
    by (simp add: max_val_of_Max)
  then show m0: "m \<noteq> 0" by (simp split: if_splits)
  show nn: "m = max 1 (Max (set vs))" if "0 \<le> Max (set vs)"
    using that m by (simp split: if_splits)
  show "m = max 1 (Max (set vs))" if "\<exists>v \<in> set vs. 0 \<le> v"
  proof -
    from that obtain v where v: "v \<in> set vs" "0 \<le> v" by blast
    then have "v \<le> Max (set vs)" by simp
    with v have "0 \<le> Max (set vs)" by linarith
    then show ?thesis by (rule nn)
  qed
  show "m = 1" if "\<forall>v \<in> set vs. v = 0"
  proof -
    from assms(1) have "Max (set vs) \<in> set vs" by (simp add: Max_in)
    with that have "Max (set vs) = 0" by blast
    with m show ?thesis by simp
  qed
qed

lemma callback_observe:
  assumes "length LEAF_NODES \<le> length vals" and "objs s stylesheet_ref = Some sheet"
  shows "\<exists>cv m.
     computed_vals_of (leaf_vals_of vals) = Inr cv \<and>
     map fst cv = computed_nodes \<and>
     max_val_of (all_values (leaf_vals_of vals) cv) = Inr m \<and>
     dict_merge (leaf_vals_of vals) cv = leaf_vals_of vals @ cv \<and>
     leaf_vals_of vals \<noteq> [] \<and>
     fst (update_graph_and_totals s vals) =
       (if overflowing (dict_merge (leaf_vals_of vals) cv) m then Inl OverflowError
        else Inr (next_ref s, map snd cv)) \<and>
     observe (update_graph_and_totals s vals) =
       (if overflowing (dict_merge (leaf_vals_of vals) cv) m then Inl OverflowError
        else Inr (sheet @ map (\<lambda>(nid, v). node_rule nid (30 + of_int v / of_int m * 70))
                        (dict_merge (leaf_vals_of vals) cv),
                  map snd cv))"
proof -
  let ?lv = "leaf_vals_of vals"
  from callback_complete [OF assms]
  obtain cv m where cv: "computed_vals_of ?lv = Inr cv"
    and keys: "map fst cv = computed_nodes"
    and m: "max_val_of (all_values ?lv cv) = Inr m"
    and merged: "dict_merge ?lv cv = ?lv @ cv"
    and result: "fst (update_graph_and_totals s vals) =
       (if overflowing (dict_merge ?lv cv) m then Inl OverflowError
        else Inr (next_ref s, map snd cv))"
    and run: "\<not> overflowing (dict_merge ?lv cv) m \<longrightarrow>
      update_graph_and_totals s vals =
       (Inr (next_ref s, map snd cv),
        s\<lparr>objs := (objs s)(next_ref s \<mapsto> sheet @
               map (\<lambda>(nid, v). node_rule nid (30 + of_int v / of_int m * 70)) (?lv @ cv)),
          next_ref := Suc (next_ref s)\<rparr>)"
    by blast
  have obs: "observe (update_graph_and_totals s vals) =
       (if overflowing (dict_merge ?lv cv) m then Inl OverflowError
        else Inr (sheet @ map (\<lambda>(nid, v). node_rule nid (30 + of_int v / of_int m * 70))
                        (dict_merge ?lv cv),
                  map snd cv))"
  proof (cases "overflowing (dict_merge ?lv cv) m")
    case True
    with result show ?thesis by (simp add: observe_def)
  next
    case False
    with run have "update_graph_and_totals s vals =
       (Inr (next_ref s, map snd cv),
        s\<lparr>objs := (objs s)(next_ref s \<mapsto> sheet @
               map (\<lambda>(nid, v). node_rule nid (30 + of_int v / of_int m * 70)) (?lv @ cv)),
          next_ref := Suc (next_ref s)\<rparr>)" ..
    with False show ?thesis by (simp add: observe_def merged)
  qed
  have "?lv \<noteq> []"
    by (rule complete_explicit [OF assms(1)]) simp
  with cv keys m merged result obs show ?thesis by blast
qed

lemma weight_small:
  assumes "0 < m" and "\<bar>v\<bar> \<le> 2 * m"
  shows "weight v m = Inr (of_int v / of_int m)"
proof -
  from assms have "\<bar>of_int v / (of_int m :: rat)\<bar> \<le> 2"
    by (simp add: pos_divide_le_eq flip: of_int_abs)
  then have "\<not> double_overflow (of_int v / of_int m)" by (rule double_overflow_small)
  with assms(1) show ?thesis by (simp add: weight_def)
qed

lemma nonneg_fits:
  assumes complete: "length LEAF_NODES \<le> length vals"
    and nonneg: "\<forall>v \<in> set (map snd (leaf_vals_of vals)). 0 \<le> v"
    and cv: "computed_vals_of (leaf_vals_of vals) = Inr cv"
    and m: "max_val_of (all_values (leaf_vals_of vals) cv) = Inr m"
  shows "0 < m"
    and "m = max 1 (Max (set (all_values (leaf_vals_of vals) cv)))"
    and "0 \<le> Max (set (all_values (leaf_vals_of vals) cv))"
    and "\<forall>(nid, v) \<in> set (leaf_vals_of vals @ cv).
           v \<le> m \<and> - 2 * m \<le> v \<and> (nid \<noteq> ''Equity'' \<longrightarrow> 0 \<le> v)"
    and "\<not> overflowing (leaf_vals_of vals @ cv) m"
proof -
  let ?lv = "leaf_vals_of vals"
  let ?vs = "all_values ?lv cv"
  let ?mx = "Max (set ?vs)"
  from complete obtain cash ar inventory ppe intangibles ap npay debt opinc nonop cogs sga
    depr interest where
    lv_eq: "leaf_vals_of vals =
     [(''Cash'', cash), (''AR'', ar), (''Inventory'', inventory), (''PPE'', ppe),
      (''Intangibles'', intangibles), (''AP'', ap), (''NotesPayable'', npay),
      (''LongTermDebt'', debt), (''OperatingIncome'', opinc), (''NonOperatingIncome'', nonop),
      (''COGS'', cogs), (''SGA'', sga), (''Depreciation'', depr), (''InterestExp'', interest)]"
    and cv_eq: "computed_vals_of (leaf_vals_of vals) =
     Inr [(''Assets'', cash + ar + inventory + (ppe + intangibles)),
        (''CurrentAssets'', cash + ar + inventory),
        (''CurrentLiabilities'', ap + npay),
        (''Equity'', cash + ar + inventory + (ppe + intangibles) + (opinc + nonop)
                     - (cogs + sga + depr + interest) - (ap + npay + debt)),
        (''Expenses'', cogs + sga + depr + interest),
        (''Income'', opinc + nonop),
        (''Liabilities'', ap + npay + debt),
        (''NonCurrentAssets'', ppe + intangibles),
        (''NonCurrentLiabilities'', debt)]"
    by (rule complete_explicit)
  note cv_eq' = cv_eq [unfolded cv sum.inject]
  from nonneg have leaves: "0 \<le> cash" "0 \<le> ar" "0 \<le> inventory" "0 \<le> ppe" "0 \<le> intangibles"
    "0 \<le> ap" "0 \<le> npay" "0 \<le> debt" "0 \<le> opinc" "0 \<le> nonop" "0 \<le> cogs" "0 \<le> sga"
    "0 \<le> depr" "0 \<le> interest"
    unfolding lv_eq by simp_all
  have ne: "?vs \<noteq> []" by (simp add: all_values_def lv_eq)
  note d = divisor_facts [OF ne m]
  have "cash \<in> set ?vs" "cogs + sga + depr + interest \<in> set ?vs" "ap + npay + debt \<in> set ?vs"
    unfolding all_values_def lv_eq cv_eq' by simp_all
  then have "cash \<le> ?mx" and ex: "cogs + sga + depr + interest \<le> ?mx"
    and li: "ap + npay + debt \<le> ?mx"
    by simp_all
  with leaves(1) have mx: "0 \<le> ?mx" by linarith
  with d(1) show mpos: "0 < m" by (simp split: if_splits)
  from mx show "m = max 1 ?mx" by (rule d(3))
  from mx show "0 \<le> ?mx" .
  from mx d(1) have mge: "?mx \<le> m" by (simp split: if_splits)
  from ex li mge have ex': "cogs + sga + depr + interest \<le> m" and li': "ap + npay + debt \<le> m"
    by linarith+
  have upper: "v \<le> m" if "(nid, v) \<in> set (?lv @ cv)" for nid v
  proof -
    from that have "v \<in> set ?vs" by (force simp add: all_values_def)
    then have "v \<le> ?mx" by simp
    with mge show ?thesis by linarith
  qed
  have lower: "\<forall>(nid, v) \<in> set (?lv @ cv). - 2 * m \<le> v \<and> (nid \<noteq> ''Equity'' \<longrightarrow> 0 \<le> v)"
    unfolding lv_eq cv_eq' using leaves mpos ex' li' by simp
  from upper lower
  show bounds: "\<forall>(nid, v) \<in> set (?lv @ cv).
           v \<le> m \<and> - 2 * m \<le> v \<and> (nid \<noteq> ''Equity'' \<longrightarrow> 0 \<le> v)"
    by fast
  have "\<not> double_overflow (of_int v / of_int m)" if "(nid, v) \<in> set (?lv @ cv)" for nid v
  proof -
    from bounds that have "v \<le> m" "- 2 * m \<le> v" by fast+
    with mpos have "\<bar>v\<bar> \<le> 2 * m" by linarith
    from weight_small [OF mpos this] mpos show ?thesis
      by (simp add: weight_def split: if_splits)
  qed
  then show "\<not> overflowing (?lv @ cv) m"
    by (auto simp add: overflowing_def list_ex_iff)
qed

lemma nonneg_returns:
  assumes complete: "length LEAF_NODES \<le> length vals"
    and sheet: "objs s stylesheet_ref = Some sheet"
    and nonneg: "\<forall>v \<in> set (map snd (leaf_vals_of vals)). 0 \<le> v"
    and cv: "computed_vals_of (leaf_vals_of vals) = Inr cv"
    and m: "max_val_of (all_values (leaf_vals_of vals) cv) = Inr m"
  shows "\<not> overflowing (dict_merge (leaf_vals_of vals) cv) m"
    and "fst (update_graph_and_totals s vals) = Inr (next_ref s, map snd cv)"
    and "observe (update_graph_and_totals s vals) =
       Inr (sheet @ map (\<lambda>(nid, v). node_rule nid (30 + of_int v / of_int m * 70))
                        (dict_merge (leaf_vals_of vals) cv),
            map snd cv)"
    and "map (\<lambda>(nid, v). weight v m) (dict_merge (leaf_vals_of vals) cv) =
         map (\<lambda>(nid, v). Inr (of_int v / of_int m)) (dict_merge (leaf_vals_of vals) cv)"
proof -
  let ?lv = "leaf_vals_of vals"
  from callback_observe [OF complete sheet] cv m
  have merged: "dict_merge ?lv cv = ?lv @ cv"
    and result: "fst (update_graph_and_totals s vals) =
       (if overflowing (dict_merge ?lv cv) m then Inl OverflowError
        else Inr (next_ref s, map snd cv))"
    and obs: "observe (update_graph_and_totals s vals) =
       (if overflowing (dict_merge ?lv cv) m then Inl OverflowError
        else Inr (sheet @ map (\<lambda>(nid, v). node_rule nid (30 + of_int v / of_int m * 70))
                        (dict_merge ?lv cv),
                  map snd cv))"
    by auto
  note f = nonneg_fits [OF complete nonneg cv m]
  from f(5) show fits: "\<not> overflowing (dict_merge ?lv cv) m" by (simp add: merged)
  with result show "fst (update_graph_and_totals s vals) = Inr (next_ref s, map snd cv)"
    by simp
  from fits obs show "observe (update_graph_and_totals s vals) =
       Inr (sheet @ map (\<lambda>(nid, v). node_rule nid (30 + of_int v / of_int m * 70))
                        (dict_merge ?lv cv),
            map snd cv)"
    by simp
  have "weight v m = Inr (of_int v / of_int m)" if "(nid, v) \<in> set (dict_merge ?lv cv)"
    for nid v
  proof -
    from that f(4) have "v \<le> m" "- 2 * m \<le> v" unfolding merged by fast+
    with f(1) have "\<bar>v\<bar> \<le> 2 * m" by linarith
    then show ?thesis by (rule weight_small [OF f(1)])
  qed
  then show "map (\<lambda>(nid, v). weight v m) (dict_merge ?lv cv) =
         map (\<lambda>(nid, v). Inr (of_int v / of_int m)) (dict_merge ?lv cv)"
    by (intro map_cong refl) auto
qed

subsection \<open>Weights\<close>

lemma quotient_sign:
  assumes "0 < m"
  shows "v \<le> m \<Longrightarrow> of_int v / (of_int m :: rat) \<le> 1"
    and "0 \<le> of_int v / (of_int m :: rat) \<longleftrightarrow> 0 \<le> v"
    and "v = m \<Longrightarrow> of_int v / (of_int m :: rat) = 1"
  using assms by (simp_all add: zero_le_divide_iff)

text \<open>
  C4, as the code has it. The weight of an account is its value divided by the divisor,
  with no clamp. For a snapshot with a value for every leaf and no negative leaf value, the
  call returns (no division fails), and for every account in the size rules: the weight is
  at most 1; it is at least 0 exactly when the value is, which is the case for every leaf
  and every node of \<open>TREE\<close>, while Equity may be negative; an account whose value is the
  maximum has weight 1 when that maximum is not 0; and when every leaf value is 0 every
  weight is 0.
\<close>

theorem weight_bounds:
  assumes "length LEAF_NODES \<le> length vals" and "objs s stylesheet_ref = Some sheet"
    and nonneg: "\<forall>v \<in> set (map snd (leaf_vals_of vals)). 0 \<le> v"
  shows "\<exists>computed_vals max_val.
     computed_vals_of (leaf_vals_of vals) = Inr computed_vals \<and>
     max_val_of (all_values (leaf_vals_of vals) computed_vals) = Inr max_val \<and>
     observe (update_graph_and_totals s vals) =
       Inr (sheet @ map (\<lambda>(nid, v). node_rule nid (30 + of_int v / of_int max_val * 70))
                        (dict_merge (leaf_vals_of vals) computed_vals),
            map snd computed_vals) \<and>
     (\<forall>(nid, v) \<in> set (dict_merge (leaf_vals_of vals) computed_vals).
        \<exists>w. weight v max_val = Inr w \<and> w \<le> 1 \<and>
            (0 \<le> w \<longleftrightarrow> 0 \<le> v) \<and>
            (nid \<noteq> ''Equity'' \<longrightarrow> 0 \<le> w) \<and>
            (v = Max (set (all_values (leaf_vals_of vals) computed_vals)) \<and> v \<noteq> 0 \<longrightarrow> w = 1)) \<and>
     ((\<forall>v \<in> set (map snd (leaf_vals_of vals)). v = 0) \<longrightarrow>
        (\<forall>(nid, v) \<in> set (dict_merge (leaf_vals_of vals) computed_vals).
           weight v max_val = Inr 0))"
proof -
  let ?lv = "leaf_vals_of vals"
  from callback_observe [OF assms(1,2)]
  obtain cv m where cv: "computed_vals_of ?lv = Inr cv"
    and m: "max_val_of (all_values ?lv cv) = Inr m"
    and merged: "dict_merge ?lv cv = ?lv @ cv"
    and obs: "observe (update_graph_and_totals s vals) =
       (if overflowing (dict_merge ?lv cv) m then Inl OverflowError
        else Inr (sheet @ map (\<lambda>(nid, v). node_rule nid (30 + of_int v / of_int m * 70))
                        (dict_merge ?lv cv),
                  map snd cv))"
    by blast
  let ?mx = "Max (set (all_values ?lv cv))"
  note f = nonneg_fits [OF assms(1) nonneg cv m]
  from f(5) have fits: "\<not> overflowing (dict_merge ?lv cv) m" by (simp add: merged)
  with obs have obs': "observe (update_graph_and_totals s vals) =
       Inr (sheet @ map (\<lambda>(nid, v). node_rule nid (30 + of_int v / of_int m * 70))
                        (dict_merge ?lv cv),
            map snd cv)"
    by simp
  have each: "\<exists>w. weight v m = Inr w \<and> w \<le> 1 \<and> (0 \<le> w \<longleftrightarrow> 0 \<le> v) \<and>
            (nid \<noteq> ''Equity'' \<longrightarrow> 0 \<le> w) \<and> (v = ?mx \<and> v \<noteq> 0 \<longrightarrow> w = 1)"
    if item: "(nid, v) \<in> set (dict_merge ?lv cv)" for nid v
  proof -
    from item f(4) have le: "v \<le> m" and ge: "- 2 * m \<le> v"
      and o: "nid \<noteq> ''Equity'' \<longrightarrow> 0 \<le> v"
      unfolding merged by fast+
    from le ge f(1) have "\<bar>v\<bar> \<le> 2 * m" by linarith
    note w = weight_small [OF f(1) this]
    have top: "v = m" if "v = ?mx \<and> v \<noteq> 0"
      using that f(2) f(3) by simp
    show ?thesis
      using w quotient_sign [OF f(1), of v] le o top by blast
  qed
  have allzero: "\<forall>(nid, v) \<in> set (dict_merge ?lv cv). weight v m = Inr 0"
    if zero: "\<forall>v \<in> set (map snd ?lv). v = 0"
  proof -
    from assms(1) obtain cash ar inventory ppe intangibles ap npay debt opinc nonop cogs sga
      depr interest where
      lv_eq: "leaf_vals_of vals =
       [(''Cash'', cash), (''AR'', ar), (''Inventory'', inventory), (''PPE'', ppe),
        (''Intangibles'', intangibles), (''AP'', ap), (''NotesPayable'', npay),
        (''LongTermDebt'', debt), (''OperatingIncome'', opinc), (''NonOperatingIncome'', nonop),
        (''COGS'', cogs), (''SGA'', sga), (''Depreciation'', depr), (''InterestExp'', interest)]"
      and cv_eq: "computed_vals_of (leaf_vals_of vals) =
       Inr [(''Assets'', cash + ar + inventory + (ppe + intangibles)),
          (''CurrentAssets'', cash + ar + inventory),
          (''CurrentLiabilities'', ap + npay),
          (''Equity'', cash + ar + inventory + (ppe + intangibles) + (opinc + nonop)
                       - (cogs + sga + depr + interest) - (ap + npay + debt)),
          (''Expenses'', cogs + sga + depr + interest),
          (''Income'', opinc + nonop),
          (''Liabilities'', ap + npay + debt),
          (''NonCurrentAssets'', ppe + intangibles),
          (''NonCurrentLiabilities'', debt)]"
      by (rule complete_explicit)
    note cv_eq' = cv_eq [unfolded cv sum.inject]
    have zeros: "\<forall>(nid, v) \<in> set (dict_merge ?lv cv). v = 0"
      using zero unfolding merged unfolding lv_eq cv_eq' by simp
    have "weight 0 m = Inr 0" using weight_small [OF f(1), of 0] f(1) by simp
    with zeros show ?thesis by fastforce
  qed
  from cv m obs' each allzero show ?thesis by blast
qed

lemma leaf_vals_of_reference: "leaf_vals_of (map snd LEAF_NODES) = LEAF_NODES"
  unfolding LEAF_NODES_def by (simp, rule leaf_vals_explicit) (simp add: last_n_def)

theorem weight_bounds_witness:
  "length LEAF_NODES \<le> length (map snd LEAF_NODES) \<and>
   objs init_store stylesheet_ref = Some base_stylesheet \<and>
   list_all (\<lambda>v. 0 \<le> v) (map snd (leaf_vals_of (map snd LEAF_NODES))) \<and>
   (\<exists>computed_vals max_val.
     computed_vals_of (leaf_vals_of (map snd LEAF_NODES)) = Inr computed_vals \<and>
     max_val_of (all_values (leaf_vals_of (map snd LEAF_NODES)) computed_vals) = Inr max_val \<and>
     (\<forall>(nid, v) \<in> set (dict_merge (leaf_vals_of (map snd LEAF_NODES)) computed_vals).
        \<exists>w. weight v max_val = Inr w \<and> w \<le> 1 \<and> (0 \<le> w \<longleftrightarrow> 0 \<le> v)))"
proof -
  have nonneg: "list_all (\<lambda>v. 0 \<le> v) (map snd (leaf_vals_of (map snd LEAF_NODES)))"
    unfolding leaf_vals_of_reference by (simp add: LEAF_NODES_def)
  then have "\<forall>v \<in> set (map snd (leaf_vals_of (map snd LEAF_NODES))). 0 \<le> v"
    by (simp only: list_all_iff)
  from weight_bounds [OF reference_complete init_store_sheet this]
  obtain cv m where "computed_vals_of (leaf_vals_of (map snd LEAF_NODES)) = Inr cv"
    and "max_val_of (all_values (leaf_vals_of (map snd LEAF_NODES)) cv) = Inr m"
    and "\<forall>(nid, v) \<in> set (dict_merge (leaf_vals_of (map snd LEAF_NODES)) cv).
        \<exists>w. weight v m = Inr w \<and> w \<le> 1 \<and> (0 \<le> w \<longleftrightarrow> 0 \<le> v) \<and>
            (nid \<noteq> ''Equity'' \<longrightarrow> 0 \<le> w) \<and>
            (v = Max (set (all_values (leaf_vals_of (map snd LEAF_NODES)) cv)) \<and> v \<noteq> 0 \<longrightarrow> w = 1)"
    by blast
  then have "\<exists>computed_vals max_val.
     computed_vals_of (leaf_vals_of (map snd LEAF_NODES)) = Inr computed_vals \<and>
     max_val_of (all_values (leaf_vals_of (map snd LEAF_NODES)) computed_vals) = Inr max_val \<and>
     (\<forall>(nid, v) \<in> set (dict_merge (leaf_vals_of (map snd LEAF_NODES)) computed_vals).
        \<exists>w. weight v max_val = Inr w \<and> w \<le> 1 \<and> (0 \<le> w \<longleftrightarrow> 0 \<le> v))"
    by fast
  with reference_complete init_store_sheet nonneg show ?thesis by (intro conjI)
qed

text \<open>
  C4, as stated, fails: with AP = 1000 and every other leaf 0, Equity is -1000, the divisor
  is 1000, and the weight of Equity is -1, below 0; the size of its node is -40.
\<close>

theorem negative_equity_weight:
  "computed_vals_of (leaf_vals_of [0, 0, 0, 0, 0, 1000, 0, 0, 0, 0, 0, 0, 0, 0]) =
     Inr [(''Assets'', 0), (''CurrentAssets'', 0), (''CurrentLiabilities'', 1000),
          (''Equity'', - 1000), (''Expenses'', 0), (''Income'', 0), (''Liabilities'', 1000),
          (''NonCurrentAssets'', 0), (''NonCurrentLiabilities'', 0)] \<and>
   max_val_of
     (all_values (leaf_vals_of [0, 0, 0, 0, 0, 1000, 0, 0, 0, 0, 0, 0, 0, 0])
        [(''Assets'', 0), (''CurrentAssets'', 0), (''CurrentLiabilities'', 1000),
         (''Equity'', - 1000), (''Expenses'', 0), (''Income'', 0), (''Liabilities'', 1000),
         (''NonCurrentAssets'', 0), (''NonCurrentLiabilities'', 0)]) = Inr 1000 \<and>
   weight (- 1000) 1000 = Inr (- 1) \<and> (- 1 :: rat) < 0 \<and>
   node_size (- 1000) 1000 = Inr (- 40)"
proof -
  let ?vals = "[0, 0, 0, 0, 0, 1000, 0, 0, 0, 0, 0, 0, 0, 0] :: int list"
  have lv: "leaf_vals_of ?vals =
     [(''Cash'', 0), (''AR'', 0), (''Inventory'', 0), (''PPE'', 0),
      (''Intangibles'', 0), (''AP'', 1000), (''NotesPayable'', 0),
      (''LongTermDebt'', 0), (''OperatingIncome'', 0), (''NonOperatingIncome'', 0),
      (''COGS'', 0), (''SGA'', 0), (''Depreciation'', 0), (''InterestExp'', 0)]"
    by (rule leaf_vals_explicit) (simp add: last_n_def)
  show ?thesis
    unfolding lv computed_vals_explicit
    by (simp add: all_values_def max_val_of_def py_max_def node_size_def weight_small)
qed

subsection \<open>The reference values and the PPE scenario\<close>

lemma reference_values:
  "map snd LEAF_NODES =
     [10000, 12000, 8000, 40000, 5000, 7000, 6000, 20000, 15000, 3000, 9000, 4000, 2000, 1000]"
  by (simp add: LEAF_NODES_def)

lemma raised_leaf_vals:
  "leaf_vals_of
     [10000, 12000, 8000, 240000, 5000, 7000, 6000, 20000, 15000, 3000, 9000, 4000, 2000, 1000] =
     [(''Cash'', 10000), (''AR'', 12000), (''Inventory'', 8000), (''PPE'', 240000),
      (''Intangibles'', 5000), (''AP'', 7000), (''NotesPayable'', 6000),
      (''LongTermDebt'', 20000), (''OperatingIncome'', 15000), (''NonOperatingIncome'', 3000),
      (''COGS'', 9000), (''SGA'', 4000), (''Depreciation'', 2000), (''InterestExp'', 1000)]"
  by (rule leaf_vals_explicit) (simp add: last_n_def)

lemma reference_computed:
  "computed_vals_of (leaf_vals_of (map snd LEAF_NODES)) =
     Inr [(''Assets'', 75000), (''CurrentAssets'', 30000), (''CurrentLiabilities'', 13000),
          (''Equity'', 44000), (''Expenses'', 16000), (''Income'', 18000),
          (''Liabilities'', 33000), (''NonCurrentAssets'', 45000),
          (''NonCurrentLiabilities'', 20000)]"
  unfolding leaf_vals_of_reference unfolding LEAF_NODES_def computed_vals_explicit by simp

lemma raised_computed:
  "computed_vals_of (leaf_vals_of
     [10000, 12000, 8000, 240000, 5000, 7000, 6000, 20000, 15000, 3000, 9000, 4000, 2000, 1000]) =
     Inr [(''Assets'', 275000), (''CurrentAssets'', 30000), (''CurrentLiabilities'', 13000),
          (''Equity'', 244000), (''Expenses'', 16000), (''Income'', 18000),
          (''Liabilities'', 33000), (''NonCurrentAssets'', 245000),
          (''NonCurrentLiabilities'', 20000)]"
  unfolding raised_leaf_vals computed_vals_explicit by simp

lemma reference_max_val:
  "max_val_of (all_values (leaf_vals_of (map snd LEAF_NODES))
     [(''Assets'', 75000), (''CurrentAssets'', 30000), (''CurrentLiabilities'', 13000),
      (''Equity'', 44000), (''Expenses'', 16000), (''Income'', 18000),
      (''Liabilities'', 33000), (''NonCurrentAssets'', 45000),
      (''NonCurrentLiabilities'', 20000)]) = Inr 75000"
  unfolding leaf_vals_of_reference unfolding LEAF_NODES_def
  by (simp add: all_values_def max_val_of_def py_max_def)

lemma raised_max_val:
  "max_val_of (all_values (leaf_vals_of
     [10000, 12000, 8000, 240000, 5000, 7000, 6000, 20000, 15000, 3000, 9000, 4000, 2000, 1000])
     [(''Assets'', 275000), (''CurrentAssets'', 30000), (''CurrentLiabilities'', 13000),
      (''Equity'', 244000), (''Expenses'', 16000), (''Income'', 18000),
      (''Liabilities'', 33000), (''NonCurrentAssets'', 245000),
      (''NonCurrentLiabilities'', 20000)]) = Inr 275000"
  unfolding raised_leaf_vals
  by (simp add: all_values_def max_val_of_def py_max_def)

lemma reference_nonneg: "\<forall>v \<in> set (map snd (leaf_vals_of (map snd LEAF_NODES))). 0 \<le> v"
  unfolding leaf_vals_of_reference by (simp add: LEAF_NODES_def)

lemma raised_complete:
  "length LEAF_NODES \<le> length
     [10000, 12000, 8000, 240000, 5000, 7000, 6000, 20000, 15000, 3000, 9000, 4000, 2000,
      1000 :: int]"
  by (simp add: length_LEAF_NODES)

lemma raised_nonneg:
  "\<forall>v \<in> set (map snd (leaf_vals_of
     [10000, 12000, 8000, 240000, 5000, 7000, 6000, 20000, 15000, 3000, 9000, 4000, 2000, 1000])).
     0 \<le> v"
  unfolding raised_leaf_vals by simp

text \<open>
  C5, as the code has it. From the reference values, raising PPE from 40000 to 240000
  raises NonCurrentAssets from 45000 to 245000, Assets from 75000 to 275000 and Equity from
  44000 to 244000, and leaves the other computed values as they were. The maximum is
  Assets before (75000) and after (275000): the weight of Assets stays 1, the weight of
  PPE becomes 240000 / 275000 = 48/55, and every weight is the value divided by 275000, so
  the weight of every account whose value did not change is multiplied by 3/11.
\<close>

theorem ppe_scenario:
  "map snd LEAF_NODES =
     [10000, 12000, 8000, 40000, 5000, 7000, 6000, 20000, 15000, 3000, 9000, 4000, 2000, 1000] \<and>
   computed_nodes =
     [''Assets'', ''CurrentAssets'', ''CurrentLiabilities'', ''Equity'', ''Expenses'',
      ''Income'', ''Liabilities'', ''NonCurrentAssets'', ''NonCurrentLiabilities''] \<and>
   fst (update_graph_and_totals init_store
     [10000, 12000, 8000, 40000, 5000, 7000, 6000, 20000, 15000, 3000, 9000, 4000, 2000, 1000]) =
     Inr (1, [75000, 30000, 13000, 44000, 16000, 18000, 33000, 45000, 20000]) \<and>
   fst (update_graph_and_totals init_store
     [10000, 12000, 8000, 240000, 5000, 7000, 6000, 20000, 15000, 3000, 9000, 4000, 2000, 1000]) =
     Inr (1, [275000, 30000, 13000, 244000, 16000, 18000, 33000, 245000, 20000]) \<and>
   max_val_of (all_values (leaf_vals_of (map snd LEAF_NODES))
     [(''Assets'', 75000), (''CurrentAssets'', 30000), (''CurrentLiabilities'', 13000),
      (''Equity'', 44000), (''Expenses'', 16000), (''Income'', 18000),
      (''Liabilities'', 33000), (''NonCurrentAssets'', 45000),
      (''NonCurrentLiabilities'', 20000)]) = Inr 75000 \<and>
   max_val_of (all_values (leaf_vals_of
     [10000, 12000, 8000, 240000, 5000, 7000, 6000, 20000, 15000, 3000, 9000, 4000, 2000, 1000])
     [(''Assets'', 275000), (''CurrentAssets'', 30000), (''CurrentLiabilities'', 13000),
      (''Equity'', 244000), (''Expenses'', 16000), (''Income'', 18000),
      (''Liabilities'', 33000), (''NonCurrentAssets'', 245000),
      (''NonCurrentLiabilities'', 20000)]) = Inr 275000 \<and>
   observe (update_graph_and_totals init_store
     [10000, 12000, 8000, 240000, 5000, 7000, 6000, 20000, 15000, 3000, 9000, 4000, 2000, 1000]) =
     Inr (base_stylesheet @
          map (\<lambda>(nid, v). node_rule nid (30 + of_int v / 275000 * 70))
            (dict_merge (leaf_vals_of
               [10000, 12000, 8000, 240000, 5000, 7000, 6000, 20000, 15000, 3000, 9000, 4000,
                2000, 1000])
               [(''Assets'', 275000), (''CurrentAssets'', 30000), (''CurrentLiabilities'', 13000),
                (''Equity'', 244000), (''Expenses'', 16000), (''Income'', 18000),
                (''Liabilities'', 33000), (''NonCurrentAssets'', 245000),
                (''NonCurrentLiabilities'', 20000)]),
          [275000, 30000, 13000, 244000, 16000, 18000, 33000, 245000, 20000]) \<and>
   weight 275000 275000 = Inr 1 \<and>
   weight 240000 275000 = Inr (48 / 55) \<and>
   map (\<lambda>(nid, v). weight v 75000)
     (dict_merge (leaf_vals_of (map snd LEAF_NODES))
        [(''Assets'', 75000), (''CurrentAssets'', 30000), (''CurrentLiabilities'', 13000),
         (''Equity'', 44000), (''Expenses'', 16000), (''Income'', 18000),
         (''Liabilities'', 33000), (''NonCurrentAssets'', 45000),
         (''NonCurrentLiabilities'', 20000)]) =
   map (\<lambda>(nid, v). Inr (of_int v / 75000))
     (dict_merge (leaf_vals_of (map snd LEAF_NODES))
        [(''Assets'', 75000), (''CurrentAssets'', 30000), (''CurrentLiabilities'', 13000),
         (''Equity'', 44000), (''Expenses'', 16000), (''Income'', 18000),
         (''Liabilities'', 33000), (''NonCurrentAssets'', 45000),
         (''NonCurrentLiabilities'', 20000)]) \<and>
   map (\<lambda>(nid, v). weight v 275000)
     (dict_merge (leaf_vals_of
        [10000, 12000, 8000, 240000, 5000, 7000, 6000, 20000, 15000, 3000, 9000, 4000, 2000,
         1000])
        [(''Assets'', 275000), (''CurrentAssets'', 30000), (''CurrentLiabilities'', 13000),
         (''Equity'', 244000), (''Expenses'', 16000), (''Income'', 18000),
         (''Liabilities'', 33000), (''NonCurrentAssets'', 245000),
         (''NonCurrentLiabilities'', 20000)]) =
   map (\<lambda>(nid, v). Inr (of_int v / 75000 * (3 / 11)))
     (dict_merge (leaf_vals_of
        [10000, 12000, 8000, 240000, 5000, 7000, 6000, 20000, 15000, 3000, 9000, 4000, 2000,
         1000])
        [(''Assets'', 275000), (''CurrentAssets'', 30000), (''CurrentLiabilities'', 13000),
         (''Equity'', 244000), (''Expenses'', 16000), (''Income'', 18000),
         (''Liabilities'', 33000), (''NonCurrentAssets'', 245000),
         (''NonCurrentLiabilities'', 20000)])"
proof -
  note ref = nonneg_returns
    [OF reference_complete init_store_sheet reference_nonneg reference_computed reference_max_val]
  note new = nonneg_returns
    [OF raised_complete init_store_sheet raised_nonneg raised_computed raised_max_val]
  have a: "fst (update_graph_and_totals init_store
     [10000, 12000, 8000, 40000, 5000, 7000, 6000, 20000, 15000, 3000, 9000, 4000, 2000, 1000]) =
     Inr (1, [75000, 30000, 13000, 44000, 16000, 18000, 33000, 45000, 20000])"
    using ref(2) by (simp add: reference_values init_store_def)
  from new(3)
  have c: "observe (update_graph_and_totals init_store
     [10000, 12000, 8000, 240000, 5000, 7000, 6000, 20000, 15000, 3000, 9000, 4000, 2000, 1000]) =
     Inr (base_stylesheet @
          map (\<lambda>(nid, v). node_rule nid (30 + of_int v / 275000 * 70))
            (dict_merge (leaf_vals_of
               [10000, 12000, 8000, 240000, 5000, 7000, 6000, 20000, 15000, 3000, 9000, 4000,
                2000, 1000])
               [(''Assets'', 275000), (''CurrentAssets'', 30000), (''CurrentLiabilities'', 13000),
                (''Equity'', 244000), (''Expenses'', 16000), (''Income'', 18000),
                (''Liabilities'', 33000), (''NonCurrentAssets'', 245000),
                (''NonCurrentLiabilities'', 20000)]),
          [275000, 30000, 13000, 244000, 16000, 18000, 33000, 245000, 20000])"
    by simp
  from new(2)
  have b: "fst (update_graph_and_totals init_store
     [10000, 12000, 8000, 240000, 5000, 7000, 6000, 20000, 15000, 3000, 9000, 4000, 2000, 1000]) =
     Inr (1, [275000, 30000, 13000, 244000, 16000, 18000, 33000, 245000, 20000])"
    by (simp add: init_store_def)
  have w: "weight 275000 275000 = Inr 1" "weight 240000 275000 = Inr (48 / 55)"
    by (simp_all add: weight_small)
  from ref(4) have wr: "map (\<lambda>(nid, v). weight v 75000)
     (dict_merge (leaf_vals_of (map snd LEAF_NODES))
        [(''Assets'', 75000), (''CurrentAssets'', 30000), (''CurrentLiabilities'', 13000),
         (''Equity'', 44000), (''Expenses'', 16000), (''Income'', 18000),
         (''Liabilities'', 33000), (''NonCurrentAssets'', 45000),
         (''NonCurrentLiabilities'', 20000)]) =
   map (\<lambda>(nid, v). Inr (of_int v / 75000))
     (dict_merge (leaf_vals_of (map snd LEAF_NODES))
        [(''Assets'', 75000), (''CurrentAssets'', 30000), (''CurrentLiabilities'', 13000),
         (''Equity'', 44000), (''Expenses'', 16000), (''Income'', 18000),
         (''Liabilities'', 33000), (''NonCurrentAssets'', 45000),
         (''NonCurrentLiabilities'', 20000)])"
    by simp
  have third: "(\<lambda>(nid :: string, v). (Inr (of_int v / 275000) :: error + rat)) =
        (\<lambda>(nid, v). Inr (of_int v / 75000 * (3 / 11)))"
    by (simp add: fun_eq_iff)
  from new(4) have wn0: "map (\<lambda>(nid, v). weight v 275000)
     (dict_merge (leaf_vals_of
        [10000, 12000, 8000, 240000, 5000, 7000, 6000, 20000, 15000, 3000, 9000, 4000, 2000,
         1000])
        [(''Assets'', 275000), (''CurrentAssets'', 30000), (''CurrentLiabilities'', 13000),
         (''Equity'', 244000), (''Expenses'', 16000), (''Income'', 18000),
         (''Liabilities'', 33000), (''NonCurrentAssets'', 245000),
         (''NonCurrentLiabilities'', 20000)]) =
   map (\<lambda>(nid, v). Inr (of_int v / 275000))
     (dict_merge (leaf_vals_of
        [10000, 12000, 8000, 240000, 5000, 7000, 6000, 20000, 15000, 3000, 9000, 4000, 2000,
         1000])
        [(''Assets'', 275000), (''CurrentAssets'', 30000), (''CurrentLiabilities'', 13000),
         (''Equity'', 244000), (''Expenses'', 16000), (''Income'', 18000),
         (''Liabilities'', 33000), (''NonCurrentAssets'', 245000),
         (''NonCurrentLiabilities'', 20000)])"
    by simp
  have wn: "map (\<lambda>(nid, v). weight v 275000)
     (dict_merge (leaf_vals_of
        [10000, 12000, 8000, 240000, 5000, 7000, 6000, 20000, 15000, 3000, 9000, 4000, 2000,
         1000])
        [(''Assets'', 275000), (''CurrentAssets'', 30000), (''CurrentLiabilities'', 13000),
         (''Equity'', 244000), (''Expenses'', 16000), (''Income'', 18000),
         (''Liabilities'', 33000), (''NonCurrentAssets'', 245000),
         (''NonCurrentLiabilities'', 20000)]) =
   map (\<lambda>(nid, v). Inr (of_int v / 75000 * (3 / 11)))
     (dict_merge (leaf_vals_of
        [10000, 12000, 8000, 240000, 5000, 7000, 6000, 20000, 15000, 3000, 9000, 4000, 2000,
         1000])
        [(''Assets'', 275000), (''CurrentAssets'', 30000), (''CurrentLiabilities'', 13000),
         (''Equity'', 244000), (''Expenses'', 16000), (''Income'', 18000),
         (''Liabilities'', 33000), (''NonCurrentAssets'', 245000),
         (''NonCurrentLiabilities'', 20000)])"
    by (simp only: wn0 third)
  from reference_values computed_nodes_eq a b reference_max_val raised_max_val c w wr wn
  show ?thesis by (intro conjI)
qed

text \<open>
  C5, as stated, fails: after the change PPE is 240000 and the maximum is Assets, 275000, so
  the weight of PPE is 48/55 and not 1.
\<close>

theorem ppe_weight_below_one:
  "dict_get (leaf_vals_of
     [10000, 12000, 8000, 240000, 5000, 7000, 6000, 20000, 15000, 3000, 9000, 4000, 2000, 1000])
     ''PPE'' = Inr 240000 \<and>
   max_val_of (all_values (leaf_vals_of
     [10000, 12000, 8000, 240000, 5000, 7000, 6000, 20000, 15000, 3000, 9000, 4000, 2000, 1000])
     [(''Assets'', 275000), (''CurrentAssets'', 30000), (''CurrentLiabilities'', 13000),
      (''Equity'', 244000), (''Expenses'', 16000), (''Income'', 18000),
      (''Liabilities'', 33000), (''NonCurrentAssets'', 245000),
      (''NonCurrentLiabilities'', 20000)]) = Inr 275000 \<and>
   weight 240000 275000 = Inr (48 / 55) \<and> (48 / 55 :: rat) \<noteq> 1"
proof -
  have "dict_get (leaf_vals_of
     [10000, 12000, 8000, 240000, 5000, 7000, 6000, 20000, 15000, 3000, 9000, 4000, 2000, 1000])
     ''PPE'' = Inr 240000"
    unfolding raised_leaf_vals by (simp add: dict_get_def)
  moreover have "weight 240000 275000 = Inr (48 / 55)" "(48 / 55 :: rat) \<noteq> 1"
    by (simp_all add: weight_small)
  ultimately show ?thesis using raised_max_val by (intro conjI)
qed

subsection \<open>Roll-up, balancing and the divisor\<close>

text \<open>
  C1. For a snapshot with a value for every leaf, the leaves take the last 14 values in
  declaration order, and for every node of \<open>TREE\<close> the value computed for the node is the
  sum of the values of its children, where the value of a child is looked up among all the
  values of the call (the leaves' and the computed ones). Since this holds for every node
  of \<open>TREE\<close>, it holds at every depth: Assets is the sum of CurrentAssets and
  NonCurrentAssets, which are the sums of their leaves. The call returns these computed
  values, in the order of \<open>computed_nodes\<close>, unless a quotient of line 209 is too large for
  a double and the division raises; it returns them whenever no leaf value is negative.
\<close>

theorem rollup_sum_of_children:
  assumes "length LEAF_NODES \<le> length vals" and "objs s stylesheet_ref = Some sheet"
  shows "\<exists>computed_vals max_val.
     leaf_vals_of vals = zip (map fst LEAF_NODES) (last_n (length LEAF_NODES) vals) \<and>
     computed_vals_of (leaf_vals_of vals) = Inr computed_vals \<and>
     map fst computed_vals = computed_nodes \<and>
     max_val_of (all_values (leaf_vals_of vals) computed_vals) = Inr max_val \<and>
     fst (update_graph_and_totals s vals) =
       (if overflowing (dict_merge (leaf_vals_of vals) computed_vals) max_val
        then Inl OverflowError else Inr (next_ref s, map snd computed_vals)) \<and>
     ((\<forall>v \<in> set (map snd (leaf_vals_of vals)). 0 \<le> v) \<longrightarrow>
        fst (update_graph_and_totals s vals) = Inr (next_ref s, map snd computed_vals)) \<and>
     (\<forall>node kids. map_of TREE node = Some kids \<longrightarrow>
        (\<exists>child_vals.
           map (map_of (dict_merge (leaf_vals_of vals) computed_vals)) kids = map Some child_vals \<and>
           map_of computed_vals node = Some (sum_list child_vals)))"
proof -
  let ?lv = "leaf_vals_of vals"
  from callback_observe [OF assms]
  obtain cv m where cv: "computed_vals_of ?lv = Inr cv"
    and keys: "map fst cv = computed_nodes"
    and m: "max_val_of (all_values ?lv cv) = Inr m"
    and ret: "fst (update_graph_and_totals s vals) =
       (if overflowing (dict_merge ?lv cv) m then Inl OverflowError
        else Inr (next_ref s, map snd cv))"
    by blast
  have pos: "(\<forall>v \<in> set (map snd ?lv). 0 \<le> v) \<longrightarrow>
        fst (update_graph_and_totals s vals) = Inr (next_ref s, map snd cv)"
    using nonneg_returns(2) [OF assms _ cv m] by blast
  let ?every = "dict_merge ?lv cv"
  from assms(1) obtain cash ar inventory ppe intangibles ap npay debt opinc nonop cogs sga
    depr interest where
    vals: "last_n 14 vals =
      [cash, ar, inventory, ppe, intangibles, ap, npay, debt, opinc, nonop, cogs, sga, depr,
       interest]"
    and lv_eq: "leaf_vals_of vals =
     [(''Cash'', cash), (''AR'', ar), (''Inventory'', inventory), (''PPE'', ppe),
      (''Intangibles'', intangibles), (''AP'', ap), (''NotesPayable'', npay),
      (''LongTermDebt'', debt), (''OperatingIncome'', opinc), (''NonOperatingIncome'', nonop),
      (''COGS'', cogs), (''SGA'', sga), (''Depreciation'', depr), (''InterestExp'', interest)]"
    and cv_eq: "computed_vals_of (leaf_vals_of vals) =
     Inr [(''Assets'', cash + ar + inventory + (ppe + intangibles)),
        (''CurrentAssets'', cash + ar + inventory),
        (''CurrentLiabilities'', ap + npay),
        (''Equity'', cash + ar + inventory + (ppe + intangibles) + (opinc + nonop)
                     - (cogs + sga + depr + interest) - (ap + npay + debt)),
        (''Expenses'', cogs + sga + depr + interest),
        (''Income'', opinc + nonop),
        (''Liabilities'', ap + npay + debt),
        (''NonCurrentAssets'', ppe + intangibles),
        (''NonCurrentLiabilities'', debt)]"
    by (rule complete_explicit)
  have leaves: "?lv = zip (map fst LEAF_NODES) (last_n (length LEAF_NODES) vals)"
    unfolding length_LEAF_NODES vals lv_eq by (simp add: leaf_names)
  have all: "\<forall>(node, kids) \<in> set TREE.
           list_all (\<lambda>ch. map_of ?every ch \<noteq> None) kids \<and>
           map_of cv node = Some (sum_list (map (\<lambda>ch. the (map_of ?every ch)) kids))"
    using lv_eq cv_eq [unfolded cv sum.inject] by (rule children_in_values)
  have sums: "\<exists>child_vals. map (map_of ?every) kids = map Some child_vals \<and>
          map_of cv node = Some (sum_list child_vals)"
    if "map_of TREE node = Some kids" for node kids
  proof -
    from that have "(node, kids) \<in> set TREE" by (rule map_of_SomeD)
    with all have present: "list_all (\<lambda>ch. map_of ?every ch \<noteq> None) kids"
      and sum: "map_of cv node = Some (sum_list (map (\<lambda>ch. the (map_of ?every ch)) kids))"
      by auto
    from present have "map (map_of ?every) kids = map Some (map (\<lambda>ch. the (map_of ?every ch)) kids)"
      by (auto simp add: list_all_iff)
    with sum show ?thesis by blast
  qed
  from leaves cv keys m ret pos sums show ?thesis by blast
qed

theorem rollup_sum_of_children_witness:
  "length LEAF_NODES \<le> length (map snd LEAF_NODES) \<and>
   objs init_store stylesheet_ref = Some base_stylesheet \<and>
   list_all (\<lambda>v. 0 \<le> v) (map snd (leaf_vals_of (map snd LEAF_NODES))) \<and>
   (\<exists>computed_vals.
     computed_vals_of (leaf_vals_of (map snd LEAF_NODES)) = Inr computed_vals \<and>
     map fst computed_vals = computed_nodes \<and>
     fst (update_graph_and_totals init_store (map snd LEAF_NODES)) =
       Inr (next_ref init_store, map snd computed_vals) \<and>
     (\<forall>node kids. map_of TREE node = Some kids \<longrightarrow>
        (\<exists>child_vals.
           map (map_of (dict_merge (leaf_vals_of (map snd LEAF_NODES)) computed_vals)) kids =
             map Some child_vals \<and>
           map_of computed_vals node = Some (sum_list child_vals))))"
proof -
  have nonneg: "list_all (\<lambda>v. 0 \<le> v) (map snd (leaf_vals_of (map snd LEAF_NODES)))"
    using reference_nonneg by (simp only: list_all_iff)
  from rollup_sum_of_children [OF reference_complete init_store_sheet] reference_nonneg
  have "\<exists>computed_vals.
     computed_vals_of (leaf_vals_of (map snd LEAF_NODES)) = Inr computed_vals \<and>
     map fst computed_vals = computed_nodes \<and>
     fst (update_graph_and_totals init_store (map snd LEAF_NODES)) =
       Inr (next_ref init_store, map snd computed_vals) \<and>
     (\<forall>node kids. map_of TREE node = Some kids \<longrightarrow>
        (\<exists>child_vals.
           map (map_of (dict_merge (leaf_vals_of (map snd LEAF_NODES)) computed_vals)) kids =
             map Some child_vals \<and>
           map_of computed_vals node = Some (sum_list child_vals)))"
    by fast
  with reference_complete init_store_sheet nonneg show ?thesis by (intro conjI)
qed

text \<open>
  C2. For a snapshot with a value for every leaf, the value the callback computes for
  Equity is Assets + Income - Expenses - Liabilities, over the values it computes for the
  four branch roots in the same call, which are the totals of the four names of \<open>ROOTS\<close>.
  The call returns these computed values unless a
  quotient of line 209 is too large for a double and the division raises; it returns them
  whenever no leaf value is negative.
\<close>

theorem balancing_identity:
  assumes "length LEAF_NODES \<le> length vals" and "objs s stylesheet_ref = Some sheet"
  shows "\<exists>computed_vals max_val assets liabilities income expenses.
     computed_vals_of (leaf_vals_of vals) = Inr computed_vals \<and>
     map fst computed_vals = computed_nodes \<and>
     max_val_of (all_values (leaf_vals_of vals) computed_vals) = Inr max_val \<and>
     fst (update_graph_and_totals s vals) =
       (if overflowing (dict_merge (leaf_vals_of vals) computed_vals) max_val
        then Inl OverflowError else Inr (next_ref s, map snd computed_vals)) \<and>
     ((\<forall>v \<in> set (map snd (leaf_vals_of vals)). 0 \<le> v) \<longrightarrow>
        fst (update_graph_and_totals s vals) = Inr (next_ref s, map snd computed_vals)) \<and>
     map (total (leaf_vals_of vals)) ROOTS =
       [Inr assets, Inr liabilities, Inr income, Inr expenses] \<and>
     map_of computed_vals ''Assets'' = Some assets \<and>
     map_of computed_vals ''Liabilities'' = Some liabilities \<and>
     map_of computed_vals ''Income'' = Some income \<and>
     map_of computed_vals ''Expenses'' = Some expenses \<and>
     map_of computed_vals ''Equity'' = Some (assets + income - expenses - liabilities)"
proof -
  let ?lv = "leaf_vals_of vals"
  from callback_observe [OF assms]
  obtain cv m where cv: "computed_vals_of ?lv = Inr cv"
    and keys: "map fst cv = computed_nodes"
    and m: "max_val_of (all_values ?lv cv) = Inr m"
    and ret: "fst (update_graph_and_totals s vals) =
       (if overflowing (dict_merge ?lv cv) m then Inl OverflowError
        else Inr (next_ref s, map snd cv))"
    by blast
  have pos: "(\<forall>v \<in> set (map snd ?lv). 0 \<le> v) \<longrightarrow>
        fst (update_graph_and_totals s vals) = Inr (next_ref s, map snd cv)"
    using nonneg_returns(2) [OF assms _ cv m] by blast
  from assms(1) obtain cash ar inventory ppe intangibles ap npay debt opinc nonop cogs sga depr
    interest where
    lv_eq: "leaf_vals_of vals =
     [(''Cash'', cash), (''AR'', ar), (''Inventory'', inventory), (''PPE'', ppe),
      (''Intangibles'', intangibles), (''AP'', ap), (''NotesPayable'', npay),
      (''LongTermDebt'', debt), (''OperatingIncome'', opinc), (''NonOperatingIncome'', nonop),
      (''COGS'', cogs), (''SGA'', sga), (''Depreciation'', depr), (''InterestExp'', interest)]"
    and cv_eq: "computed_vals_of (leaf_vals_of vals) =
     Inr [(''Assets'', cash + ar + inventory + (ppe + intangibles)),
        (''CurrentAssets'', cash + ar + inventory),
        (''CurrentLiabilities'', ap + npay),
        (''Equity'', cash + ar + inventory + (ppe + intangibles) + (opinc + nonop)
                     - (cogs + sga + depr + interest) - (ap + npay + debt)),
        (''Expenses'', cogs + sga + depr + interest),
        (''Income'', opinc + nonop),
        (''Liabilities'', ap + npay + debt),
        (''NonCurrentAssets'', ppe + intangibles),
        (''NonCurrentLiabilities'', debt)]"
    by (rule complete_explicit)
  note cv_eq' = cv_eq [unfolded cv sum.inject]
  have roots: "map (total ?lv) ROOTS =
      [Inr (cash + ar + inventory + (ppe + intangibles)), Inr (ap + npay + debt),
       Inr (opinc + nonop), Inr (cogs + sga + depr + interest)]"
    unfolding lv_eq by (simp add: ROOTS_def total_nodes py_sum_def dict_get_def)
  have entries:
    "map_of cv ''Assets'' = Some (cash + ar + inventory + (ppe + intangibles))"
    "map_of cv ''Liabilities'' = Some (ap + npay + debt)"
    "map_of cv ''Income'' = Some (opinc + nonop)"
    "map_of cv ''Expenses'' = Some (cogs + sga + depr + interest)"
    "map_of cv ''Equity'' =
       Some (cash + ar + inventory + (ppe + intangibles) + (opinc + nonop)
             - (cogs + sga + depr + interest) - (ap + npay + debt))"
    unfolding cv_eq' by simp_all
  from cv keys m ret pos roots entries show ?thesis by (intro exI conjI)
qed

theorem balancing_identity_witness:
  "length LEAF_NODES \<le> length (map snd LEAF_NODES) \<and>
   objs init_store stylesheet_ref = Some base_stylesheet \<and>
   list_all (\<lambda>v. 0 \<le> v) (map snd (leaf_vals_of (map snd LEAF_NODES))) \<and>
   (\<exists>computed_vals assets liabilities income expenses.
     computed_vals_of (leaf_vals_of (map snd LEAF_NODES)) = Inr computed_vals \<and>
     fst (update_graph_and_totals init_store (map snd LEAF_NODES)) =
       Inr (next_ref init_store, map snd computed_vals) \<and>
     map_of computed_vals ''Assets'' = Some assets \<and>
     map_of computed_vals ''Liabilities'' = Some liabilities \<and>
     map_of computed_vals ''Income'' = Some income \<and>
     map_of computed_vals ''Expenses'' = Some expenses \<and>
     map_of computed_vals ''Equity'' = Some (assets + income - expenses - liabilities))"
proof -
  have nonneg: "list_all (\<lambda>v. 0 \<le> v) (map snd (leaf_vals_of (map snd LEAF_NODES)))"
    using reference_nonneg by (simp only: list_all_iff)
  from balancing_identity [OF reference_complete init_store_sheet] reference_nonneg
  have "\<exists>computed_vals assets liabilities income expenses.
     computed_vals_of (leaf_vals_of (map snd LEAF_NODES)) = Inr computed_vals \<and>
     fst (update_graph_and_totals init_store (map snd LEAF_NODES)) =
       Inr (next_ref init_store, map snd computed_vals) \<and>
     map_of computed_vals ''Assets'' = Some assets \<and>
     map_of computed_vals ''Liabilities'' = Some liabilities \<and>
     map_of computed_vals ''Income'' = Some income \<and>
     map_of computed_vals ''Expenses'' = Some expenses \<and>
     map_of computed_vals ''Equity'' = Some (assets + income - expenses - liabilities)"
    by fast
  with reference_complete init_store_sheet nonneg show ?thesis by (intro conjI)
qed

text \<open>
  C7. Leaf values are Python ints that are not negative (the sliders start at 0 in steps of
  1000). For such a snapshot with a value for every leaf, the divisor of the node sizes
  (the \<open>max_val\<close> in the rules of the returned stylesheet) is \<open>max(1, maximum)\<close>, where the
  maximum is taken over the values of all the accounts of the size rules: the leaves and
  the computed nodes, Equity among them. The divisor is 1 when every value is 0 and is
  never 0; no division of the call raises, and the call returns.
\<close>

theorem normalization_divisor:
  assumes "length LEAF_NODES \<le> length vals" and "objs s stylesheet_ref = Some sheet"
    and "\<forall>v \<in> set (map snd (leaf_vals_of vals)). 0 \<le> v"
  shows "\<exists>computed_vals max_val.
     computed_vals_of (leaf_vals_of vals) = Inr computed_vals \<and>
     max_val_of (all_values (leaf_vals_of vals) computed_vals) = Inr max_val \<and>
     observe (update_graph_and_totals s vals) =
       Inr (sheet @ map (\<lambda>(nid, v). node_rule nid (30 + of_int v / of_int max_val * 70))
                        (dict_merge (leaf_vals_of vals) computed_vals),
            map snd computed_vals) \<and>
     all_values (leaf_vals_of vals) computed_vals =
       map snd (dict_merge (leaf_vals_of vals) computed_vals) \<and>
     map fst (dict_merge (leaf_vals_of vals) computed_vals) =
       map fst LEAF_NODES @ computed_nodes \<and>
     max_val = max 1 (Max (set (all_values (leaf_vals_of vals) computed_vals))) \<and>
     max_val \<noteq> 0 \<and>
     ((\<forall>v \<in> set (all_values (leaf_vals_of vals) computed_vals). v = 0) \<longrightarrow> max_val = 1) \<and>
     (\<forall>(nid, v) \<in> set (dict_merge (leaf_vals_of vals) computed_vals).
        weight v max_val = Inr (of_int v / of_int max_val))"
proof -
  let ?lv = "leaf_vals_of vals"
  from callback_observe [OF assms(1,2)]
  obtain cv m where cv: "computed_vals_of ?lv = Inr cv"
    and keys: "map fst cv = computed_nodes"
    and m: "max_val_of (all_values ?lv cv) = Inr m"
    and merged: "dict_merge ?lv cv = ?lv @ cv"
    and lv: "?lv \<noteq> []"
    by blast
  let ?vs = "all_values ?lv cv"
  note r = nonneg_returns [OF assms cv m]
  note f = nonneg_fits [OF assms(1,3) cv m]
  from lv have ne: "?vs \<noteq> []" by (simp add: all_values_def)
  note d = divisor_facts [OF ne m]
  have vs: "?vs = map snd (dict_merge ?lv cv)" by (simp add: all_values_merged merged)
  have "map fst ?lv = map fst LEAF_NODES"
    by (rule complete_explicit [OF assms(1)]) (simp add: leaf_names)
  with keys have names: "map fst (dict_merge ?lv cv) = map fst LEAF_NODES @ computed_nodes"
    by (simp add: merged)
  have w: "\<forall>(nid, v) \<in> set (dict_merge ?lv cv). weight v m = Inr (of_int v / of_int m)"
  proof -
    have "weight v m = Inr (of_int v / of_int m)" if "(nid, v) \<in> set (dict_merge ?lv cv)"
      for nid v
    proof -
      from that f(4) have "v \<le> m" "- 2 * m \<le> v" unfolding merged by fast+
      with f(1) have "\<bar>v\<bar> \<le> 2 * m" by linarith
      then show ?thesis by (rule weight_small [OF f(1)])
    qed
    then show ?thesis by fast
  qed
  have one: "(\<forall>v \<in> set ?vs. v = 0) \<longrightarrow> m = 1" using d(5) by blast
  from cv m r(3) vs names f(2) d(2) one w show ?thesis by blast
qed

theorem normalization_divisor_witness:
  "length LEAF_NODES \<le> length (map snd LEAF_NODES) \<and>
   objs init_store stylesheet_ref = Some base_stylesheet \<and>
   list_all (\<lambda>v. 0 \<le> v) (map snd (leaf_vals_of (map snd LEAF_NODES))) \<and>
   (\<exists>computed_vals max_val.
     computed_vals_of (leaf_vals_of (map snd LEAF_NODES)) = Inr computed_vals \<and>
     max_val_of (all_values (leaf_vals_of (map snd LEAF_NODES)) computed_vals) = Inr max_val \<and>
     max_val = max 1 (Max (set (all_values (leaf_vals_of (map snd LEAF_NODES)) computed_vals))) \<and>
     max_val \<noteq> 0)"
proof -
  have nonneg: "list_all (\<lambda>v. 0 \<le> v) (map snd (leaf_vals_of (map snd LEAF_NODES)))"
    using reference_nonneg by (simp only: list_all_iff)
  from normalization_divisor [OF reference_complete init_store_sheet reference_nonneg]
  have "\<exists>computed_vals max_val.
     computed_vals_of (leaf_vals_of (map snd LEAF_NODES)) = Inr computed_vals \<and>
     max_val_of (all_values (leaf_vals_of (map snd LEAF_NODES)) computed_vals) = Inr max_val \<and>
     max_val = max 1 (Max (set (all_values (leaf_vals_of (map snd LEAF_NODES)) computed_vals))) \<and>
     max_val \<noteq> 0"
    by fast
  with reference_complete init_store_sheet nonneg show ?thesis by (intro conjI)
qed

subsection \<open>The node Equation\<close>

lemma Equation_static:
  "''Equation'' \<in> all_nodes" "''Equation'' \<notin> set computed_nodes"
  "''Equation'' \<notin> set (map fst LEAF_NODES)" "''Equation'' \<notin> set (map fst TREE)"
  "''Equation'' \<notin> set ROOTS" "''Equation'' \<noteq> ''Equity''"
  by (simp_all add: all_nodes_def computed_nodes_eq leaf_names TREE_def ROOTS_def)

lemma Equation_no_child:
  assumes "map_of TREE node = Some kids"
  shows "''Equation'' \<notin> set kids"
proof -
  from assms have "(node, kids) \<in> set TREE" by (rule map_of_SomeD)
  moreover have "\<forall>(node, kids) \<in> set TREE. ''Equation'' \<notin> set kids"
    by (simp add: TREE_def)
  ultimately show ?thesis by fast
qed

lemma total_Equation: "total lv ''Equation'' = Inr 0"
  by (rule total_other) (simp_all add: leaf_names TREE_def)

text \<open>
  C8. The node Equation is a node of the graph only. It is not among the computed nodes,
  the leaves, the keys of \<open>TREE\<close> or \<open>ROOTS\<close>, and it is the child of no node of \<open>TREE\<close>, so
  no total has a term for it; \<open>total\<close> gives 0 for it (the last line of the helper). For a
  snapshot with a value for every leaf, the call computes no value for it: it has no entry
  among the computed values, nor among the values that the maximum and the size rules are
  taken over; and Equity is computed from the totals of the four names of \<open>ROOTS\<close> alone.
  The call returns the stylesheet with one size rule for each of those values, unless a
  quotient is too large for a double and the division raises; it returns whenever no leaf
  value is negative.
\<close>

theorem equation_node_is_skipped:
  assumes "length LEAF_NODES \<le> length vals" and "objs s stylesheet_ref = Some sheet"
  shows "''Equation'' \<in> all_nodes \<and> ''Equation'' \<notin> set computed_nodes \<and>
     ''Equation'' \<notin> set (map fst LEAF_NODES) \<and> ''Equation'' \<notin> set (map fst TREE) \<and>
     ''Equation'' \<notin> set ROOTS \<and>
     (\<forall>node kids. map_of TREE node = Some kids \<longrightarrow> ''Equation'' \<notin> set kids) \<and>
     total (leaf_vals_of vals) ''Equation'' = Inr 0 \<and>
     (\<exists>computed_vals max_val assets liabilities income expenses.
        computed_vals_of (leaf_vals_of vals) = Inr computed_vals \<and>
        max_val_of (all_values (leaf_vals_of vals) computed_vals) = Inr max_val \<and>
        observe (update_graph_and_totals s vals) =
          (if overflowing (dict_merge (leaf_vals_of vals) computed_vals) max_val
           then Inl OverflowError
           else Inr (sheet @
                     map (\<lambda>(nid, v). node_rule nid (30 + of_int v / of_int max_val * 70))
                         (dict_merge (leaf_vals_of vals) computed_vals),
                     map snd computed_vals)) \<and>
        ((\<forall>v \<in> set (map snd (leaf_vals_of vals)). 0 \<le> v) \<longrightarrow>
         observe (update_graph_and_totals s vals) =
           Inr (sheet @
                map (\<lambda>(nid, v). node_rule nid (30 + of_int v / of_int max_val * 70))
                    (dict_merge (leaf_vals_of vals) computed_vals),
                map snd computed_vals)) \<and>
        map_of computed_vals ''Equation'' = None \<and>
        map_of (dict_merge (leaf_vals_of vals) computed_vals) ''Equation'' = None \<and>
        all_values (leaf_vals_of vals) computed_vals =
          map snd (dict_merge (leaf_vals_of vals) computed_vals) \<and>
        map (total (leaf_vals_of vals)) ROOTS =
          [Inr assets, Inr liabilities, Inr income, Inr expenses] \<and>
        total (leaf_vals_of vals) ''Equity'' =
          Inr (assets + income - expenses - liabilities))"
proof -
  let ?lv = "leaf_vals_of vals"
  from callback_observe [OF assms]
  obtain cv m where cv: "computed_vals_of ?lv = Inr cv"
    and m: "max_val_of (all_values ?lv cv) = Inr m"
    and merged: "dict_merge ?lv cv = ?lv @ cv"
    and obs: "observe (update_graph_and_totals s vals) =
       (if overflowing (dict_merge ?lv cv) m then Inl OverflowError
        else Inr (sheet @ map (\<lambda>(nid, v). node_rule nid (30 + of_int v / of_int m * 70))
                        (dict_merge ?lv cv),
                  map snd cv))"
    by blast
  have ret: "(\<forall>v \<in> set (map snd ?lv). 0 \<le> v) \<longrightarrow>
         observe (update_graph_and_totals s vals) =
           Inr (sheet @ map (\<lambda>(nid, v). node_rule nid (30 + of_int v / of_int m * 70))
                            (dict_merge ?lv cv),
                map snd cv)"
    using nonneg_returns(3) [OF assms _ cv m] by blast
  from assms(1) obtain cash ar inventory ppe intangibles ap npay debt opinc nonop cogs sga
    depr interest where
    lv_eq: "leaf_vals_of vals =
     [(''Cash'', cash), (''AR'', ar), (''Inventory'', inventory), (''PPE'', ppe),
      (''Intangibles'', intangibles), (''AP'', ap), (''NotesPayable'', npay),
      (''LongTermDebt'', debt), (''OperatingIncome'', opinc), (''NonOperatingIncome'', nonop),
      (''COGS'', cogs), (''SGA'', sga), (''Depreciation'', depr), (''InterestExp'', interest)]"
    and cv_eq: "computed_vals_of (leaf_vals_of vals) =
     Inr [(''Assets'', cash + ar + inventory + (ppe + intangibles)),
        (''CurrentAssets'', cash + ar + inventory),
        (''CurrentLiabilities'', ap + npay),
        (''Equity'', cash + ar + inventory + (ppe + intangibles) + (opinc + nonop)
                     - (cogs + sga + depr + interest) - (ap + npay + debt)),
        (''Expenses'', cogs + sga + depr + interest),
        (''Income'', opinc + nonop),
        (''Liabilities'', ap + npay + debt),
        (''NonCurrentAssets'', ppe + intangibles),
        (''NonCurrentLiabilities'', debt)]"
    by (rule complete_explicit)
  note cv_eq' = cv_eq [unfolded cv sum.inject]
  have none: "map_of cv ''Equation'' = None" "map_of (dict_merge ?lv cv) ''Equation'' = None"
    unfolding merged unfolding lv_eq cv_eq' by simp_all
  have vs: "all_values ?lv cv = map snd (dict_merge ?lv cv)"
    by (simp add: all_values_merged merged)
  have roots: "map (total ?lv) ROOTS =
      [Inr (cash + ar + inventory + (ppe + intangibles)), Inr (ap + npay + debt),
       Inr (opinc + nonop), Inr (cogs + sga + depr + interest)]"
    unfolding lv_eq by (simp add: ROOTS_def total_nodes py_sum_def dict_get_def)
  then have equity: "total ?lv ''Equity'' =
      Inr (cash + ar + inventory + (ppe + intangibles) + (opinc + nonop)
           - (cogs + sga + depr + interest) - (ap + npay + debt))"
    by (simp add: ROOTS_def total_Equity)
  have "\<exists>computed_vals max_val assets liabilities income expenses.
        computed_vals_of ?lv = Inr computed_vals \<and>
        max_val_of (all_values ?lv computed_vals) = Inr max_val \<and>
        observe (update_graph_and_totals s vals) =
          (if overflowing (dict_merge ?lv computed_vals) max_val
           then Inl OverflowError
           else Inr (sheet @
                     map (\<lambda>(nid, v). node_rule nid (30 + of_int v / of_int max_val * 70))
                         (dict_merge ?lv computed_vals),
                     map snd computed_vals)) \<and>
        ((\<forall>v \<in> set (map snd ?lv). 0 \<le> v) \<longrightarrow>
         observe (update_graph_and_totals s vals) =
           Inr (sheet @
                map (\<lambda>(nid, v). node_rule nid (30 + of_int v / of_int max_val * 70))
                    (dict_merge ?lv computed_vals),
                map snd computed_vals)) \<and>
        map_of computed_vals ''Equation'' = None \<and>
        map_of (dict_merge ?lv computed_vals) ''Equation'' = None \<and>
        all_values ?lv computed_vals = map snd (dict_merge ?lv computed_vals) \<and>
        map (total ?lv) ROOTS = [Inr assets, Inr liabilities, Inr income, Inr expenses] \<and>
        total ?lv ''Equity'' = Inr (assets + income - expenses - liabilities)"
    using cv m obs ret none vs roots equity by (intro exI conjI)
  moreover have "\<forall>node kids. map_of TREE node = Some kids \<longrightarrow> ''Equation'' \<notin> set kids"
    using Equation_no_child by (intro allI impI)
  ultimately show ?thesis
    using Equation_static(1-5) total_Equation [of ?lv] by (intro conjI)
qed

theorem equation_node_is_skipped_witness:
  "length LEAF_NODES \<le> length (map snd LEAF_NODES) \<and>
   objs init_store stylesheet_ref = Some base_stylesheet \<and>
   map_of TREE ''Assets'' = Some [''CurrentAssets'', ''NonCurrentAssets''] \<and>
   ''Equation'' \<notin> set [''CurrentAssets'', ''NonCurrentAssets''] \<and>
   ''Equation'' \<notin> set computed_nodes \<and>
   total (leaf_vals_of (map snd LEAF_NODES)) ''Equation'' = Inr 0"
proof -
  have t: "map_of TREE ''Assets'' = Some [''CurrentAssets'', ''NonCurrentAssets'']"
    by (simp add: TREE_def)
  note inst = equation_node_is_skipped [OF reference_complete init_store_sheet]
  note c2 = inst [THEN conjunct2, THEN conjunct1]
  note c6 = inst [THEN conjunct2, THEN conjunct2, THEN conjunct2, THEN conjunct2,
    THEN conjunct2, THEN conjunct1]
  note c7 = inst [THEN conjunct2, THEN conjunct2, THEN conjunct2, THEN conjunct2,
    THEN conjunct2, THEN conjunct2, THEN conjunct1]
  from c6 t have "''Equation'' \<notin> set [''CurrentAssets'', ''NonCurrentAssets'']" by fast
  with reference_complete init_store_sheet t show ?thesis using c2 c7 by (intro conjI)
qed

subsection \<open>Termination of the roll-up\<close>

lemma sum_from_cases:
  "(\<And>r. r \<in> set rs \<Longrightarrow> (\<exists>v. r = Inr v) \<or> missing_leaf lv r) \<Longrightarrow>
   (\<exists>v. sum_from acc rs = Inr v) \<or> missing_leaf lv (sum_from acc rs)"
proof (induction rs arbitrary: acc)
  case Nil
  show ?case by simp
next
  case (Cons r rs)
  have tail: "(\<exists>v. sum_from a rs = Inr v) \<or> missing_leaf lv (sum_from a rs)" for a
    by (rule Cons.IH) (simp add: Cons.prems)
  from Cons.prems [of r] have "(\<exists>v. r = Inr v) \<or> missing_leaf lv r" by simp
  then show ?case
  proof
    assume "\<exists>v. r = Inr v"
    then obtain v where "r = Inr v" ..
    with tail [of "acc + v"] show ?thesis by simp
  next
    assume m: "missing_leaf lv r"
    then obtain k where "r = Inl (KeyError k)" unfolding missing_leaf_def by blast
    with m show ?thesis by simp
  qed
qed

lemma total_cases:
  "(\<exists>v. total lv node = Inr v) \<or> missing_leaf lv (total lv node)"
proof (induction lv node rule: total.induct)
  case (1 leaf_vals node)
  show ?case
  proof (cases "node \<in> set (map fst LEAF_NODES)")
    case True
    then show ?thesis
      by (cases "map_of leaf_vals node") (simp_all add: total_leaf dict_get_def missing_leaf_def)
  next
    case leaf: False
    show ?thesis
    proof (cases "map_of TREE node")
      case (Some kids)
      have "(\<exists>v. sum_from 0 (map (total leaf_vals) kids) = Inr v) \<or>
            missing_leaf leaf_vals (sum_from 0 (map (total leaf_vals) kids))"
      proof (rule sum_from_cases)
        fix r assume "r \<in> set (map (total leaf_vals) kids)"
        then obtain ch where ch: "ch \<in> set kids" and r: "r = total leaf_vals ch"
          by (auto simp add: image_iff)
        from "1.IH"(5) [OF leaf Some ch] r
        show "(\<exists>v. r = Inr v) \<or> missing_leaf leaf_vals r" by simp
      qed
      with leaf Some show ?thesis by (simp add: total_tree py_sum_def)
    next
      case None
      show ?thesis
      proof (cases "node = ''Equity''")
        case True
        note ih = "1.IH"(1-4) [OF leaf None True]
        show ?thesis
        proof (cases "total leaf_vals ''Assets''")
          case (Inl e)
          with ih(1) show ?thesis unfolding True total_Equity by simp
        next
          case a: (Inr a)
          show ?thesis
          proof (cases "total leaf_vals ''Liabilities''")
            case (Inl e)
            with ih(2) [OF a] a show ?thesis unfolding True total_Equity by simp
          next
            case l: (Inr l)
            show ?thesis
            proof (cases "total leaf_vals ''Income''")
              case (Inl e)
              with ih(3) [OF a l] a l show ?thesis unfolding True total_Equity by simp
            next
              case i: (Inr i)
              show ?thesis
              proof (cases "total leaf_vals ''Expenses''")
                case (Inl e)
                with ih(4) [OF a l i] a l i show ?thesis unfolding True total_Equity by simp
              next
                case (Inr e)
                with a l i show ?thesis unfolding True total_Equity by simp
              qed
            qed
          qed
        qed
      next
        case False
        with leaf None show ?thesis by (simp add: total_other)
      qed
    qed
  qed
qed

lemma wf_child_rel: "wf child_rel"
proof (rule wf_subset [OF wf_measure [of rank]])
  show "child_rel \<subseteq> measure rank"
    unfolding child_rel_def by (clarsimp simp add: rank_children)
qed

lemma total_returns:
  assumes "set (map fst LEAF_NODES) \<subseteq> dom (map_of lv)"
  shows "\<exists>v. total lv node = Inr v"
proof -
  have "\<not> missing_leaf lv (total lv node)"
    unfolding missing_leaf_def using assms by blast
  with total_cases [of lv node] show ?thesis by simp
qed

text \<open>
  C10. The recursion of \<open>total\<close> is accepted with a termination proof: every call descends
  along a measure. The child relation of \<open>TREE\<close> is well-founded; for a leaf assignment that
  has every leaf, \<open>total\<close> returns a value on every name whatsoever (a leaf, a node of
  \<open>TREE\<close>, Equity, or a name outside the hierarchy); and for any assignment it returns a
  value or raises \<open>KeyError\<close> for a leaf that the assignment lacks.
\<close>

theorem total_terminates:
  "wf child_rel \<and>
   (\<forall>lv node. set (map fst LEAF_NODES) \<subseteq> dom (map_of lv) \<longrightarrow> (\<exists>v. total lv node = Inr v)) \<and>
   (\<forall>lv node. (\<exists>v. total lv node = Inr v) \<or> missing_leaf lv (total lv node))"
  using wf_child_rel total_returns total_cases by simp

theorem total_terminates_witness:
  "set (map fst LEAF_NODES) \<subseteq> dom (map_of LEAF_NODES) \<and>
   (\<exists>v. total LEAF_NODES ''Equity'' = Inr v) \<and>
   (\<exists>v. total LEAF_NODES ''Equation'' = Inr v)"
proof -
  have complete: "set (map fst LEAF_NODES) \<subseteq> dom (map_of LEAF_NODES)"
    by (simp add: dom_map_of_conv_image_fst)
  from total_terminates
  have "\<forall>lv node. set (map fst LEAF_NODES) \<subseteq> dom (map_of lv) \<longrightarrow> (\<exists>v. total lv node = Inr v)"
    by simp
  with complete show ?thesis by simp
qed

end
